theory Spec2Isabelle
  imports Main "HOL-Library.AList" "HOL-Library.Multiset"
begin

section \<open>Values: strings, amounts, objects, outcomes\<close>

text \<open>
  Modelled from the spec: the class \<open>Fixed8\<close> (\<open>u/Fixed8\<close>) is not among the sources.
  The spec describes it as a fixed-point amount that supports addition and equality;
  an amount is modelled by its number of \<open>10\<^sup>-\<^sup>8\<close> units, an unbounded integer.
  \<open>p.add(q)\<close> is \<open>p + q\<close>, \<open>p.equals(q)\<close> is \<open>p = q\<close>, \<open>new Fixed8(0)\<close> is \<open>0\<close>.
\<close>

type_synonym Fixed8 = int

text \<open>
  \<open>String.prototype.toUpperCase\<close> is a built-in of the language. On a string of ASCII
  characters (codes below 128) it moves the letters \<open>a\<close> to \<open>z\<close> (codes 97 to 122) down
  by 32 and keeps every other character. On any other string it follows the Unicode case
  mappings, which may also change the length of the string; that result is not computed
  here but given by the parameter \<open>beyond\<close>, the built-in on the strings that are not
  ASCII.
\<close>

definition upper_char :: "char \<Rightarrow> char" where
  "upper_char c =
     (let n = (of_char c :: nat) in if 97 \<le> n \<and> n \<le> 122 then char_of (n - 32) else c)"

definition is_ascii :: "string \<Rightarrow> bool" where
  "is_ascii s \<longleftrightarrow> list_all (\<lambda>c. (of_char c :: nat) < 128) s"

definition toUpperCase :: "(string \<Rightarrow> string) \<Rightarrow> string \<Rightarrow> string" where
  "toUpperCase beyond s = (if is_ascii s then map upper_char s else beyond s)"

text \<open>
  A JavaScript object used as a dictionary (\<open>{ [symbol: string]: V }\<close>) is the list of its
  own properties in creation order. Reading a missing property gives \<open>undefined\<close>
  (\<open>None\<close>); assigning to an existing property keeps its place, assigning to a new one
  appends it.
\<close>

type_synonym 'v js_object = "(string \<times> 'v) list"

definition obj_get :: "'v js_object \<Rightarrow> string \<Rightarrow> 'v option" where
  "obj_get obj k = map_of obj k"

definition obj_set :: "'v js_object \<Rightarrow> string \<Rightarrow> 'v \<Rightarrow> 'v js_object" where
  "obj_set obj k v = AList.update k v obj"

text \<open>
  A method mutates its receiver in place, so an exception leaves the receiver in the state
  reached when it was thrown: \<open>Threw e s\<close> carries that state, \<open>Returned s\<close> is a normal
  return of \<open>this\<close>.
\<close>

datatype js_error = TypeError | QueryError string

datatype 'a outcome = Returned 'a | Threw js_error 'a

fun state_of :: "'a outcome \<Rightarrow> 'a" where
  "state_of (Returned s) = s"
| "state_of (Threw e s) = s"

fun returned :: "'a outcome \<Rightarrow> bool" where
  "returned (Returned s) = True"
| "returned (Threw e s) = False"

text \<open>
  \<open>Array.prototype.findIndex\<close>: the index of the first element satisfying the predicate;
  JavaScript's \<open>-1\<close> is \<open>None\<close>, so that the test \<open>ind >= 0\<close> is the case \<open>Some ind\<close>.
\<close>

fun findIndex :: "('a \<Rightarrow> bool) \<Rightarrow> 'a list \<Rightarrow> nat option" where
  "findIndex p [] = None"
| "findIndex p (x # xs) = (if p x then Some 0 else map_option Suc (findIndex p xs))"

text \<open>
  \<open>xs.splice(ind, 1)\<close> with \<open>ind\<close> in range removes one element from \<open>xs\<close> in place and
  returns the one-element array of what it removed.
\<close>

definition splice_rest :: "nat \<Rightarrow> 'a list \<Rightarrow> 'a list" where
  "splice_rest ind xs = take ind xs @ drop (Suc ind) xs"

definition splice_removed :: "nat \<Rightarrow> 'a list \<Rightarrow> 'a list" where
  "splice_removed ind xs = take 1 (drop ind xs)"

section \<open>Coin and AssetBalance\<close>

text \<open>
  Modelled from the spec: \<open>components/Coin\<close> is not among the sources. The spec gives a
  coin three fields (source transaction id, output index, value) and the snapshot
  \<open>{ index, txid, value }\<close>. The record is polymorphic in the type of the value: a \<open>Coin\<close>
  holds a \<open>Fixed8\<close>, a snapshot holds whatever numeric representation the caller uses.
  \<open>new Coin(c)\<close> copies index and txid and converts the value with \<open>new Fixed8\<close>, here the
  parameter \<open>toFixed8\<close> (the identity when the value already is a \<open>Fixed8\<close>).
\<close>

record 'v CoinLike =
  index :: nat
  txid :: string
  coin_value :: 'v

type_synonym Coin = "Fixed8 CoinLike"

definition Coin_new :: "('v \<Rightarrow> Fixed8) \<Rightarrow> 'v CoinLike \<Rightarrow> Coin" where
  "Coin_new toFixed8 c =
     \<lparr>index = index c, txid = txid c, coin_value = toFixed8 (coin_value c)\<rparr>"

text \<open>
  Modelled from the spec: \<open>components/AssetBalance\<close> is not among the sources. The spec
  gives it three ordered coin sequences and a \<open>balance\<close> that "must equal the sum of
  \<open>unspent\<close> values whenever read". \<open>Balance.ts\<close> changes \<open>unspent\<close> in place (\<open>splice\<close>,
  \<open>push\<close>, assignment) and never writes \<open>balance\<close>, so \<open>balance\<close> is modelled as what a read
  of it computes from \<open>unspent\<close>. Construction from a partial snapshot copies each coin
  list that is present through \<open>new Coin\<close> and takes the empty list for one that is
  missing.
\<close>

record AssetBalance =
  unspent :: "Coin list"
  spent :: "Coin list"
  unconfirmed :: "Coin list"

definition balance :: "AssetBalance \<Rightarrow> Fixed8" where
  "balance ab = fold (\<lambda>c p. p + coin_value c) (unspent ab) 0"

record 'v AssetBalanceLike =
  balance_like :: "'v option"
  unspent_like :: "'v CoinLike list option"
  spent_like :: "'v CoinLike list option"
  unconfirmed_like :: "'v CoinLike list option"

definition coins_new :: "('v \<Rightarrow> Fixed8) \<Rightarrow> 'v CoinLike list option \<Rightarrow> Coin list" where
  "coins_new toFixed8 cs = (case cs of None \<Rightarrow> [] | Some l \<Rightarrow> map (Coin_new toFixed8) l)"

definition AssetBalance_new :: "('v \<Rightarrow> Fixed8) \<Rightarrow> 'v AssetBalanceLike \<Rightarrow> AssetBalance" where
  "AssetBalance_new toFixed8 abLike =
     \<lparr>unspent = coins_new toFixed8 (unspent_like abLike),
      spent = coins_new toFixed8 (spent_like abLike),
      unconfirmed = coins_new toFixed8 (unconfirmed_like abLike)\<rparr>"

text \<open>The argument \<open>{}\<close>, which is also the default of an omitted argument.\<close>

definition no_snapshot :: "'v AssetBalanceLike" where
  "no_snapshot =
     \<lparr>balance_like = None, unspent_like = None, spent_like = None, unconfirmed_like = None\<rparr>"

section \<open>Balance\<close>

record Balance =
  address :: string
  net :: string
  assetSymbols :: "string list"
  assets :: "AssetBalance js_object"
  tokenSymbols :: "string list"
  tokens :: "Fixed8 js_object"

text \<open>\<open>new Balance()\<close>: the constructor run on \<open>{}\<close>.\<close>

definition Balance_empty :: Balance where
  "Balance_empty =
     \<lparr>address = [], net = ''NoNet'', assetSymbols = [], assets = [],
      tokenSymbols = [], tokens = []\<rparr>"

definition addAsset :: "(string \<Rightarrow> string) \<Rightarrow> ('v \<Rightarrow> Fixed8) \<Rightarrow> string \<Rightarrow> 'v AssetBalanceLike \<Rightarrow> Balance \<Rightarrow> Balance" where
  "addAsset beyond toFixed8 symbol assetBalance b =
     (let symbol' = toUpperCase beyond symbol;
          cleanedAssetBalance = AssetBalance_new toFixed8 assetBalance
      in b\<lparr>assetSymbols := assetSymbols b @ [symbol'],
            assets := obj_set (assets b) symbol' cleanedAssetBalance\<rparr>)"

definition addToken :: "(string \<Rightarrow> string) \<Rightarrow> ('v \<Rightarrow> Fixed8) \<Rightarrow> string \<Rightarrow> 'v \<Rightarrow> Balance \<Rightarrow> Balance" where
  "addToken beyond toFixed8 symbol tokenBalance b =
     (let symbol' = toUpperCase beyond symbol
      in b\<lparr>tokenSymbols := tokenSymbols b @ [symbol'],
            tokens := obj_set (tokens b) symbol' (toFixed8 tokenBalance)\<rparr>)"

section \<open>applyTx\<close>

text \<open>
  The transaction object is consumed through \<open>inputs\<close>, \<open>outputs\<close> and \<open>hash\<close> only. The
  registry \<open>ASSETS\<close> (\<open>consts\<close>) is not among the sources and is a parameter: a lookup from
  asset id to symbol, \<open>None\<close> where JavaScript reads \<open>undefined\<close>.
\<close>

record TransactionInput =
  prevHash :: string
  prevIndex :: nat

record TransactionOutput =
  assetId :: string
  out_value :: Fixed8
  scriptHash :: string

record Transaction =
  inputs :: "TransactionInput list"
  outputs :: "TransactionOutput list"
  hash :: string

type_synonym registry = "string \<Rightarrow> string option"

definition findFunc :: "string \<Rightarrow> nat \<Rightarrow> Coin \<Rightarrow> bool" where
  "findFunc h i el \<longleftrightarrow> txid el = h \<and> index el = i"

text \<open>
  The inner loop of the spend phase, for one input: \<open>this.assets[symbol]\<close> is read for each
  symbol in turn; reading \<open>unspent\<close> of \<open>undefined\<close> throws. On the first hit the coin moves
  from \<open>unspent\<close> to the end of \<open>spent\<close> and \<open>break\<close> leaves the loop.
\<close>

fun spendInput :: "TransactionInput \<Rightarrow> string list \<Rightarrow> Balance \<Rightarrow> Balance outcome" where
  "spendInput inp [] b = Returned b"
| "spendInput inp (symbol # symbols) b =
     (case obj_get (assets b) symbol of
        None \<Rightarrow> Threw TypeError b
      | Some assetBalance \<Rightarrow>
          (case findIndex (findFunc (prevHash inp) (prevIndex inp)) (unspent assetBalance) of
             Some ind \<Rightarrow>
               Returned (b\<lparr>assets := obj_set (assets b) symbol
                 (assetBalance\<lparr>unspent := splice_rest ind (unspent assetBalance),
                                spent := spent assetBalance @ splice_removed ind (unspent assetBalance)\<rparr>)\<rparr>)
           | None \<Rightarrow> spendInput inp symbols b))"

fun spendCoins :: "TransactionInput list \<Rightarrow> string list \<Rightarrow> Balance \<Rightarrow> Balance outcome" where
  "spendCoins [] symbols b = Returned b"
| "spendCoins (inp # inps) symbols b =
     (case spendInput inp symbols b of
        Threw e b' \<Rightarrow> Threw e b'
      | Returned b' \<Rightarrow> spendCoins inps symbols b')"

text \<open>
  The receive phase. \<open>symbol\<close> may be \<open>undefined\<close>; used as a property key it is the string
  \<open>"undefined"\<close>. \<open>assetBalance\<close> is a \<open>const\<close> read before \<open>addAsset\<close> runs: when the
  property is missing it stays \<open>undefined\<close> after \<open>addAsset\<close> has added the symbol, and the
  next read of \<open>assetBalance.unconfirmed\<close> (on either branch of \<open>confirmed\<close>) throws.
  \<open>addAsset(undefined)\<close> throws at \<open>symbol.toUpperCase()\<close>, before it changes anything.
  The guards \<open>if (!assetBalance.unspent)\<close> and \<open>if (!assetBalance.unconfirmed)\<close> never fire on
  an AssetBalance, whose lists are arrays.
\<close>

definition property_key :: "string option \<Rightarrow> string" where
  "property_key symbol = (case symbol of None \<Rightarrow> ''undefined'' | Some s \<Rightarrow> s)"

definition addCoin :: "bool \<Rightarrow> Coin \<Rightarrow> AssetBalance \<Rightarrow> AssetBalance" where
  "addCoin confirmed coin assetBalance =
     (if confirmed then
        (let un = (case findIndex (findFunc (txid coin) (index coin)) (unconfirmed assetBalance) of
                     Some unconfirmedIndex \<Rightarrow> splice_rest unconfirmedIndex (unconfirmed assetBalance)
                   | None \<Rightarrow> unconfirmed assetBalance)
         in assetBalance\<lparr>unspent := unspent assetBalance @ [coin], unconfirmed := un\<rparr>)
      else assetBalance\<lparr>unconfirmed := unconfirmed assetBalance @ [coin]\<rparr>)"

fun addNewCoins ::
  "(string \<Rightarrow> string) \<Rightarrow> registry \<Rightarrow> string \<Rightarrow> bool \<Rightarrow> nat \<Rightarrow> TransactionOutput list \<Rightarrow> Balance \<Rightarrow> Balance outcome" where
  "addNewCoins beyond ASSETS h confirmed i [] b = Returned b"
| "addNewCoins beyond ASSETS h confirmed i (output # outs) b =
     (let symbol = ASSETS (assetId output) in
      case obj_get (assets b) (property_key symbol) of
        None \<Rightarrow>
          (case symbol of
             None \<Rightarrow> Threw TypeError b
           | Some s \<Rightarrow> Threw TypeError (addAsset beyond (\<lambda>v::Fixed8. v) s no_snapshot b))
      | Some assetBalance \<Rightarrow>
          (let coin = Coin_new (\<lambda>v. v) \<lparr>index = i, txid = h, coin_value = out_value output\<rparr>
           in addNewCoins beyond ASSETS h confirmed (Suc i) outs
                (b\<lparr>assets := obj_set (assets b) (property_key symbol)
                                (addCoin confirmed coin assetBalance)\<rparr>)))"

definition applyTx :: "(string \<Rightarrow> string) \<Rightarrow> registry \<Rightarrow> Transaction \<Rightarrow> bool \<Rightarrow> Balance \<Rightarrow> Balance outcome" where
  "applyTx beyond ASSETS tx confirmed b =
     (case spendCoins (inputs tx) (assetSymbols b) b of
        Threw e b' \<Rightarrow> Threw e b'
      | Returned b' \<Rightarrow> addNewCoins beyond ASSETS (hash tx) confirmed 0 (outputs tx) b')"

section \<open>confirm\<close>

fun confirm_loop :: "string list \<Rightarrow> Balance \<Rightarrow> Balance outcome" where
  "confirm_loop [] b = Returned b"
| "confirm_loop (symbol # symbols) b =
     (case obj_get (assets b) symbol of
        None \<Rightarrow> Threw TypeError b
      | Some assetBalance \<Rightarrow>
          confirm_loop symbols
            (b\<lparr>assets := obj_set (assets b) symbol
               (assetBalance\<lparr>unspent := unspent assetBalance @ unconfirmed assetBalance,
                              unconfirmed := []\<rparr>)\<rparr>))"

definition confirm :: "Balance \<Rightarrow> Balance outcome" where
  "confirm b = confirm_loop (assetSymbols b) b"

section \<open>verifyAssets\<close>

text \<open>
  The remote node is a parameter: \<open>Query.getTxOut(txid, index).execute(url)\<close> either fails
  (the promise rejects, \<open>Inl\<close>) or answers with \<open>response.result\<close>, which is absent
  (\<open>None\<close>) or an output with its position \<open>n\<close> and its value. The node is a function of
  the query: asked twice about one coin during one call it answers alike.
\<close>

record TxOut =
  n :: nat
  txout_value :: Fixed8

type_synonym node = "string \<Rightarrow> string \<Rightarrow> nat \<Rightarrow> js_error + TxOut option"

definition verifyCoin :: "node \<Rightarrow> string \<Rightarrow> Coin \<Rightarrow> js_error + bool" where
  "verifyCoin getTxOut url c =
     (case getTxOut url (txid c) (index c) of
        Inl e \<Rightarrow> Inl e
      | Inr None \<Rightarrow> Inr False
      | Inr (Some result) \<Rightarrow> Inr (index c = n result \<and> coin_value c = txout_value result))"

text \<open>
  \<open>Promise.all\<close>: the list of all results when every promise fulfils, a rejection when one
  rejects. Which rejection is reported depends on timing; the model reports the first in
  list order.
\<close>

fun promise_all :: "(js_error + 'a) list \<Rightarrow> js_error + 'a list" where
  "promise_all [] = Inr []"
| "promise_all (Inl e # ps) = Inl e"
| "promise_all (Inr x # ps) = (case promise_all ps of Inl e \<Rightarrow> Inl e | Inr xs \<Rightarrow> Inr (x # xs))"

definition verifyCoins :: "node \<Rightarrow> string \<Rightarrow> Coin list \<Rightarrow> js_error + bool list" where
  "verifyCoins getTxOut url coinArr = promise_all (map (verifyCoin getTxOut url) coinArr)"

text \<open>
  The \<open>forEach\<close> of \<open>verifyAssetBalance\<close> over the verdicts, on the literal
  \<open>newAssetBalance\<close>: \<open>validCoins\<close> has the length of \<open>assetBalance.unspent\<close>, so
  \<open>assetBalance.unspent[i]\<close> is the coin paired with the \<open>i\<close>-th verdict. The literal
  has all four fields, which \<open>the\<close> reads. \<open>verifyAssetBalance\<close> is an \<open>async\<close>
  function: reading \<open>unspent\<close> of an \<open>undefined\<close> argument rejects its promise.
\<close>

definition sort_coin :: "bool \<times> Coin \<Rightarrow> Fixed8 AssetBalanceLike \<Rightarrow> Fixed8 AssetBalanceLike" where
  "sort_coin vc newAssetBalance =
     (case vc of (valid, coin) \<Rightarrow>
        if valid then
          newAssetBalance\<lparr>unspent_like := Some (the (unspent_like newAssetBalance) @ [coin]),
                          balance_like := Some (the (balance_like newAssetBalance) + coin_value coin)\<rparr>
        else
          newAssetBalance\<lparr>spent_like := Some (the (spent_like newAssetBalance) @ [coin])\<rparr>)"

definition newAssetBalance_init :: "Fixed8 AssetBalanceLike" where
  "newAssetBalance_init =
     \<lparr>balance_like = Some 0, unspent_like = Some [], spent_like = Some [],
      unconfirmed_like = Some []\<rparr>"

definition verifyAssetBalance :: "node \<Rightarrow> string \<Rightarrow> AssetBalance option \<Rightarrow> js_error + AssetBalance" where
  "verifyAssetBalance getTxOut url assetBalance =
     (case assetBalance of
        None \<Rightarrow> Inl TypeError
      | Some ab \<Rightarrow>
          (case verifyCoins getTxOut url (unspent ab) of
             Inl e \<Rightarrow> Inl e
           | Inr validCoins \<Rightarrow>
               Inr (AssetBalance_new (\<lambda>v. v)
                      (fold sort_coin (zip validCoins (unspent ab)) newAssetBalance_init))))"

definition verifyAssets :: "node \<Rightarrow> string \<Rightarrow> Balance \<Rightarrow> Balance outcome" where
  "verifyAssets getTxOut url b =
     (let symbols = assetSymbols b;
          promises = map (\<lambda>key. verifyAssetBalance getTxOut url (obj_get (assets b) key)) symbols
      in case promise_all promises of
           Inl e \<Rightarrow> Threw e b
         | Inr newBalances \<Rightarrow>
             Returned (b\<lparr>assets := fold (\<lambda>(symbol, newBalance) as. obj_set as symbol newBalance)
                                     (zip symbols newBalances) (assets b)\<rparr>))"

section \<open>Specification vocabulary\<close>

text \<open>
  The invariant of the data model: the properties of \<open>assets\<close> have distinct names (it is
  an object), and every symbol of the order list has an entry.
\<close>

definition well_formed :: "Balance \<Rightarrow> bool" where
  "well_formed b \<longleftrightarrow>
     distinct (map fst (assets b)) \<and> (\<forall>s \<in> set (assetSymbols b). obj_get (assets b) s \<noteq> None)"

text \<open>
  The spend phase in the spec's words. An input matches a coin by identity; an asset owns
  the input when its \<open>unspent\<close> holds a matching coin; the first owner in the order of the
  symbol list moves its first matching coin to the end of \<open>spent\<close>, and without an owner
  nothing changes.
\<close>

definition matches :: "TransactionInput \<Rightarrow> Coin \<Rightarrow> bool" where
  "matches inp c \<longleftrightarrow> txid c = prevHash inp \<and> index c = prevIndex inp"

definition owns :: "Balance \<Rightarrow> TransactionInput \<Rightarrow> string \<Rightarrow> bool" where
  "owns b inp s \<longleftrightarrow>
     (case obj_get (assets b) s of
        None \<Rightarrow> False
      | Some ab \<Rightarrow> \<exists>c \<in> set (unspent ab). matches inp c)"

definition move_to_spent :: "TransactionInput \<Rightarrow> AssetBalance \<Rightarrow> AssetBalance" where
  "move_to_spent inp ab =
     (case find (matches inp) (unspent ab) of
        None \<Rightarrow> ab
      | Some c \<Rightarrow> ab\<lparr>unspent := remove1 c (unspent ab), spent := spent ab @ [c]\<rparr>)"

definition spend_in :: "string list \<Rightarrow> TransactionInput \<Rightarrow> Balance \<Rightarrow> Balance" where
  "spend_in symbols inp b =
     (case find (owns b inp) symbols of
        None \<Rightarrow> b
      | Some s \<Rightarrow>
          (case obj_get (assets b) s of
             None \<Rightarrow> b
           | Some ab \<Rightarrow> b\<lparr>assets := obj_set (assets b) s (move_to_spent inp ab)\<rparr>))"

text \<open>
  Confirmation in the spec's words: an asset's unconfirmed coins go to the end of its
  unspent coins, in order, and \<open>unconfirmed\<close> becomes empty; this happens to the entry of
  every symbol of the order list and to no other entry.
\<close>

definition promote :: "AssetBalance \<Rightarrow> AssetBalance" where
  "promote ab = ab\<lparr>unspent := unspent ab @ unconfirmed ab, unconfirmed := []\<rparr>"

definition promote_tracked :: "string list \<Rightarrow> AssetBalance js_object \<Rightarrow> AssetBalance js_object" where
  "promote_tracked symbols obj =
     map (\<lambda>(k, ab). (k, if k \<in> set symbols then promote ab else ab)) obj"

text \<open>
  Reconciliation in the spec's words: a coin is valid when the node reports an output at
  the coin's transaction id and index whose position and value equal the coin's; the
  replacement keeps the valid coins as \<open>unspent\<close>, takes the others as \<open>spent\<close>, and has no
  unconfirmed coin.
\<close>

definition coin_valid :: "node \<Rightarrow> string \<Rightarrow> Coin \<Rightarrow> bool" where
  "coin_valid getTxOut url c \<longleftrightarrow>
     (case getTxOut url (txid c) (index c) of
        Inr (Some out) \<Rightarrow> n out = index c \<and> txout_value out = coin_value c
      | _ \<Rightarrow> False)"

definition query_fails :: "node \<Rightarrow> string \<Rightarrow> Coin \<Rightarrow> bool" where
  "query_fails getTxOut url c \<longleftrightarrow> isl (getTxOut url (txid c) (index c))"

definition reconciled :: "node \<Rightarrow> string \<Rightarrow> AssetBalance \<Rightarrow> AssetBalance" where
  "reconciled getTxOut url ab =
     \<lparr>unspent = filter (coin_valid getTxOut url) (unspent ab),
      spent = filter (\<lambda>c. \<not> coin_valid getTxOut url c) (unspent ab),
      unconfirmed = []\<rparr>"

section \<open>Example data\<close>

text \<open>
  The symbols of the examples are ASCII strings, on which \<open>toUpperCase\<close> does not consult
  its first argument; the examples pass \<open>unmapped\<close> for it.
\<close>

definition unmapped :: "string \<Rightarrow> string" where
  "unmapped s = s"

text \<open>
  A registry with the two native assets, keyed by their names and by their asset ids, and
  a Balance that tracks NEO only.
\<close>

definition ASSETS_example :: registry where
  "ASSETS_example aid =
     (if aid = ''NEO'' then Some ''NEO''
      else if aid = ''c56f33fc6ecfcd0c225c4ab356fee59390af8560be0e930faebe74a6daff7c9b'' then Some ''NEO''
      else if aid = ''GAS'' then Some ''GAS''
      else if aid = ''602c79718b16e442de58778e148d0b1084e3b2dffd5de6b7b16cee7969282de7'' then Some ''GAS''
      else None)"

definition neo_only :: Balance where
  "neo_only = addAsset unmapped (\<lambda>v::Fixed8. v) ''neo'' no_snapshot Balance_empty"

definition coin_a :: Coin where
  "coin_a = \<lparr>index = 0, txid = ''t1'', coin_value = 500000000\<rparr>"

definition coin_b :: Coin where
  "coin_b = \<lparr>index = 1, txid = ''t2'', coin_value = 300000000\<rparr>"

definition coin_c :: Coin where
  "coin_c = \<lparr>index = 0, txid = ''t0'', coin_value = 100000000\<rparr>"

text \<open>
  A Balance that tracks NEO and GAS: GAS has \<open>coin_a\<close> unspent, \<open>coin_c\<close> spent and \<open>coin_b\<close>
  unconfirmed.
\<close>

definition neo_gas :: Balance where
  "neo_gas =
     \<lparr>address = ''AK2nJJpJr6o664CWJKi1QRXjqeic2zRp8y'', net = ''TestNet'',
      assetSymbols = [''NEO'', ''GAS''],
      assets = [(''NEO'', \<lparr>unspent = [], spent = [], unconfirmed = []\<rparr>),
                (''GAS'', \<lparr>unspent = [coin_a], spent = [coin_c], unconfirmed = [coin_b]\<rparr>)],
      tokenSymbols = [], tokens = []\<rparr>"

definition neo_gas_confirmed :: Balance where
  "neo_gas_confirmed =
     \<lparr>address = ''AK2nJJpJr6o664CWJKi1QRXjqeic2zRp8y'', net = ''TestNet'',
      assetSymbols = [''NEO'', ''GAS''],
      assets = [(''NEO'', \<lparr>unspent = [], spent = [], unconfirmed = []\<rparr>),
                (''GAS'', \<lparr>unspent = [coin_a, coin_b], spent = [coin_c], unconfirmed = []\<rparr>)],
      tokenSymbols = [], tokens = []\<rparr>"


definition node_a :: node where
  "node_a url t i =
     (if t = ''t1'' \<and> i = 0 then Inr (Some \<lparr>n = 0, txout_value = 500000000\<rparr>) else Inr None)"

definition node_down :: node where
  "node_down url t i = Inl (QueryError ''timeout'')"

section \<open>Sequences of calls and coin identities\<close>

text \<open>
  Sequences of calls on one Balance. A caller that catches an exception goes on with the
  Balance as the failed call left it. The snapshot handed to \<open>addAsset\<close> holds \<open>Fixed8\<close>
  values.
\<close>

datatype operation =
    AddAsset string "Fixed8 AssetBalanceLike"
  | ApplyTx Transaction bool
  | Confirm
  | VerifyAssets node string

fun step :: "(string \<Rightarrow> string) \<Rightarrow> registry \<Rightarrow> operation \<Rightarrow> Balance \<Rightarrow> Balance" where
  "step beyond ASSETS (AddAsset symbol assetBalance) b = addAsset beyond (\<lambda>v. v) symbol assetBalance b"
| "step beyond ASSETS (ApplyTx tx confirmed) b = state_of (applyTx beyond ASSETS tx confirmed b)"
| "step beyond ASSETS Confirm b = state_of (confirm b)"
| "step beyond ASSETS (VerifyAssets getTxOut url) b = state_of (verifyAssets getTxOut url b)"

definition run :: "(string \<Rightarrow> string) \<Rightarrow> registry \<Rightarrow> operation list \<Rightarrow> Balance \<Rightarrow> Balance" where
  "run beyond ASSETS ops b = fold (step beyond ASSETS) ops b"

text \<open>
  Coin identities. \<open>ids_disjoint\<close> is the claimed invariant: no identity is in two of the
  three lists. \<open>ids_distinct\<close> says more: no identity occurs twice at all.
\<close>

definition coin_id :: "Coin \<Rightarrow> string \<times> nat" where
  "coin_id c = (txid c, index c)"

definition ids_disjoint :: "AssetBalance \<Rightarrow> bool" where
  "ids_disjoint ab \<longleftrightarrow>
     set (map coin_id (unspent ab)) \<inter> set (map coin_id (spent ab)) = {} \<and>
     set (map coin_id (unspent ab)) \<inter> set (map coin_id (unconfirmed ab)) = {} \<and>
     set (map coin_id (spent ab)) \<inter> set (map coin_id (unconfirmed ab)) = {}"

definition ids_distinct :: "AssetBalance \<Rightarrow> bool" where
  "ids_distinct ab \<longleftrightarrow> distinct (map coin_id (unspent ab @ spent ab @ unconfirmed ab))"

definition all_assets :: "(AssetBalance \<Rightarrow> bool) \<Rightarrow> Balance \<Rightarrow> bool" where
  "all_assets P b \<longleftrightarrow> list_all (\<lambda>p. P (snd p)) (assets b)"

text \<open>
  What the caller has to respect for the invariant to hold. A snapshot handed to
  \<open>addAsset\<close> has no identity twice. A transaction is new to the Balance: applied
  unconfirmed, no tracked coin carries its hash from position \<open>i\<close> on; applied confirmed,
  no unspent or spent coin does (its own earlier unconfirmed outputs may be there, they
  are taken out of \<open>unconfirmed\<close>). A call is admissible for \<open>i = 0\<close>. \<open>verifyAssets\<close> is
  not among the calls considered.
\<close>

definition watched :: "bool \<Rightarrow> AssetBalance \<Rightarrow> Coin list" where
  "watched confirmed ab =
     (if confirmed then unspent ab @ spent ab else unspent ab @ spent ab @ unconfirmed ab)"

definition hash_below :: "string \<Rightarrow> nat \<Rightarrow> bool \<Rightarrow> AssetBalance \<Rightarrow> bool" where
  "hash_below h i confirmed ab \<longleftrightarrow>
     list_all (\<lambda>c. txid c = h \<longrightarrow> index c < i) (watched confirmed ab)"

fun admissible :: "operation \<Rightarrow> Balance \<Rightarrow> bool" where
  "admissible (AddAsset symbol assetBalance) b = ids_distinct (AssetBalance_new (\<lambda>v. v) assetBalance)"
| "admissible (ApplyTx tx confirmed) b = all_assets (hash_below (hash tx) 0 confirmed) b"
| "admissible Confirm b = True"
| "admissible (VerifyAssets getTxOut url) b = False"

fun admissible_run :: "(string \<Rightarrow> string) \<Rightarrow> registry \<Rightarrow> operation list \<Rightarrow> Balance \<Rightarrow> bool" where
  "admissible_run beyond ASSETS [] b = True"
| "admissible_run beyond ASSETS (operation # ops) b =
     (admissible operation b \<and> admissible_run beyond ASSETS ops (step beyond ASSETS operation b))"

definition gas_tx :: Transaction where
  "gas_tx =
     \<lparr>inputs = [],
      outputs = [\<lparr>assetId = ''602c79718b16e442de58778e148d0b1084e3b2dffd5de6b7b16cee7969282de7'',
                  out_value = 1000000000, scriptHash = ''ab''\<rparr>],
      hash = ''t1''\<rparr>"

definition spend_tx :: Transaction where
  "spend_tx =
     \<lparr>inputs = [\<lparr>prevHash = ''t1'', prevIndex = 0\<rparr>],
      outputs = [\<lparr>assetId = ''602c79718b16e442de58778e148d0b1084e3b2dffd5de6b7b16cee7969282de7'',
                  out_value = 400000000, scriptHash = ''cd''\<rparr>],
      hash = ''t2''\<rparr>"

section \<open>Construction from a snapshot, and export\<close>

text \<open>
  \<open>Object.keys\<close> lists the own property names of an object: first the names that are
  array indices (canonical decimal numerals below \<open>2\<^sup>3\<^sup>2 - 1\<close>) in ascending numeric order,
  then the other names in creation order.
\<close>

definition decimal :: "string \<Rightarrow> int" where
  "decimal s = foldl (\<lambda>a c. 10 * a + ((of_char c :: int) - 48)) 0 s"

definition array_index :: "string \<Rightarrow> int option" where
  "array_index s =
     (if s \<noteq> [] \<and> list_all (\<lambda>c. 48 \<le> (of_char c :: nat) \<and> (of_char c :: nat) \<le> 57) s \<and>
         (length s = 1 \<or> hd s \<noteq> CHR ''0'') \<and> decimal s < 4294967295
      then Some (decimal s) else None)"

definition index_order :: "string \<Rightarrow> int" where
  "index_order k = (case array_index k of None \<Rightarrow> 0 | Some i \<Rightarrow> i)"

definition is_array_index :: "string \<Rightarrow> bool" where
  "is_array_index k \<longleftrightarrow> array_index k \<noteq> None"

definition Object_keys :: "'v js_object \<Rightarrow> string list" where
  "Object_keys obj =
     sort_key index_order (filter is_array_index (map fst obj)) @
     filter (\<lambda>k. \<not> is_array_index k) (map fst obj)"

text \<open>
  \<open>BalanceLike\<close>, with every field optional as in \<open>Partial<BalanceLike>\<close>; the numeric type
  of a snapshot is the parameter \<open>'v\<close>.
\<close>

record 'v BalanceLike =
  address_like :: "string option"
  net_like :: "string option"
  assetSymbols_like :: "string list option"
  assets_like :: "'v AssetBalanceLike js_object option"
  tokenSymbols_like :: "string list option"
  tokens_like :: "'v js_object option"

text \<open>
  The constructor. \<open>bal.address || ""\<close> and \<open>bal.net || "NoNet"\<close> take the default for a
  missing field and for the empty string. The entries of \<open>bal.assets\<close> are objects by their
  type, so the test \<open>typeof bal.assets[key] === "object"\<close> holds for each key. The field
  \<open>assetSymbols\<close> of the snapshot is not read: the symbols are the keys of \<open>bal.assets\<close>, in
  the order of \<open>Object.keys\<close>, each passed through \<open>addAsset\<close>; likewise for the tokens.
  A key listed by \<open>Object.keys\<close> has a value, so the \<open>None\<close> branches below (and in the
  export functions) are never taken.
\<close>

definition Balance_new :: "(string \<Rightarrow> string) \<Rightarrow> ('v \<Rightarrow> Fixed8) \<Rightarrow> 'v BalanceLike \<Rightarrow> Balance" where
  "Balance_new beyond toFixed8 bal =
     (let b0 = \<lparr>address = (case address_like bal of None \<Rightarrow> [] | Some a \<Rightarrow> a),
                net = (case net_like bal of
                         None \<Rightarrow> ''NoNet''
                       | Some nt \<Rightarrow> if nt = [] then ''NoNet'' else nt),
                assetSymbols = [], assets = [], tokenSymbols = [], tokens = []\<rparr>;
          b1 = (case assets_like bal of
                  None \<Rightarrow> b0
                | Some as \<Rightarrow>
                    fold (\<lambda>key b. case obj_get as key of
                                     None \<Rightarrow> b
                                   | Some assetBalance \<Rightarrow> addAsset beyond toFixed8 key assetBalance b)
                         (Object_keys as) b0)
      in case tokens_like bal of
           None \<Rightarrow> b1
         | Some ts \<Rightarrow>
             fold (\<lambda>key b. case obj_get ts key of
                              None \<Rightarrow> b
                            | Some tokenBalance \<Rightarrow> addToken beyond toFixed8 key tokenBalance b)
                  (Object_keys ts) b1)"

text \<open>
  Modelled from the spec: the \<open>export\<close> methods of Coin and AssetBalance and
  \<open>Fixed8.toNumber\<close> are not among the sources. The spec gives the snapshot shapes
  \<open>{ index, txid, value }\<close> and \<open>{ balance, unspent, spent, unconfirmed }\<close> with numeric
  values; the conversion of an amount to a number is the parameter \<open>toNumber\<close>.
\<close>

definition Coin_export :: "(Fixed8 \<Rightarrow> 'v) \<Rightarrow> Coin \<Rightarrow> 'v CoinLike" where
  "Coin_export toNumber c =
     \<lparr>index = index c, txid = txid c, coin_value = toNumber (coin_value c)\<rparr>"

definition AssetBalance_export :: "(Fixed8 \<Rightarrow> 'v) \<Rightarrow> AssetBalance \<Rightarrow> 'v AssetBalanceLike" where
  "AssetBalance_export toNumber ab =
     \<lparr>balance_like = Some (toNumber (balance ab)),
      unspent_like = Some (map (Coin_export toNumber) (unspent ab)),
      spent_like = Some (map (Coin_export toNumber) (spent ab)),
      unconfirmed_like = Some (map (Coin_export toNumber) (unconfirmed ab))\<rparr>"

definition exportAssets :: "(Fixed8 \<Rightarrow> 'v) \<Rightarrow> AssetBalance js_object \<Rightarrow> 'v AssetBalanceLike js_object" where
  "exportAssets toNumber as =
     fold (\<lambda>key output. case obj_get as key of
                            None \<Rightarrow> output
                          | Some ab \<Rightarrow> obj_set output key (AssetBalance_export toNumber ab))
          (Object_keys as) []"

definition exportTokens :: "(Fixed8 \<Rightarrow> 'v) \<Rightarrow> Fixed8 js_object \<Rightarrow> 'v js_object" where
  "exportTokens toNumber ts =
     fold (\<lambda>symbol out. case obj_get ts symbol of
                            None \<Rightarrow> out
                          | Some t \<Rightarrow> obj_set out symbol (toNumber t))
          (Object_keys ts) []"

definition export :: "(Fixed8 \<Rightarrow> 'v) \<Rightarrow> Balance \<Rightarrow> 'v BalanceLike" where
  "export toNumber b =
     \<lparr>address_like = Some (address b),
      net_like = Some (net b),
      assetSymbols_like = Some (assetSymbols b),
      assets_like = Some (exportAssets toNumber (assets b)),
      tokenSymbols_like = Some (tokenSymbols b),
      tokens_like = Some (exportTokens toNumber (tokens b))\<rparr>"

text \<open>
  Deep equality of two Balances: equal fields, and objects with the same property names
  and the same value under each name, whatever their creation order.
\<close>

definition same_entries :: "'v js_object \<Rightarrow> 'v js_object \<Rightarrow> bool" where
  "same_entries o1 o2 \<longleftrightarrow>
     set (map fst o1) = set (map fst o2) \<and>
     list_all (\<lambda>k. obj_get o1 k = obj_get o2 k) (map fst o1)"

definition deep_equal :: "Balance \<Rightarrow> Balance \<Rightarrow> bool" where
  "deep_equal b1 b2 \<longleftrightarrow>
     address b1 = address b2 \<and> net b1 = net b2 \<and>
     assetSymbols b1 = assetSymbols b2 \<and> same_entries (assets b1) (assets b2) \<and>
     tokenSymbols b1 = tokenSymbols b2 \<and> same_entries (tokens b1) (tokens b2)"

text \<open>
  A Balance that export and construction reproduce: it is well-formed in its assets and
  in its tokens, its property names are upper-case, its network name is not empty, its
  symbol lists are the key lists of its objects, and each of its amounts comes back from
  the conversion to a number.
\<close>

definition amounts :: "Balance \<Rightarrow> Fixed8 list" where
  "amounts b =
     concat (map (\<lambda>p. map coin_value (unspent (snd p) @ spent (snd p) @ unconfirmed (snd p)))
                 (assets b)) @
     map snd (tokens b)"

definition reproducible :: "(string \<Rightarrow> string) \<Rightarrow> (Fixed8 \<Rightarrow> 'v) \<Rightarrow> ('v \<Rightarrow> Fixed8) \<Rightarrow> Balance \<Rightarrow> bool" where
  "reproducible beyond toNumber toFixed8 b \<longleftrightarrow>
     distinct (map fst (assets b)) \<and> distinct (map fst (tokens b)) \<and>
     list_all (\<lambda>k. toUpperCase beyond k = k) (map fst (assets b)) \<and>
     list_all (\<lambda>k. toUpperCase beyond k = k) (map fst (tokens b)) \<and>
     net b \<noteq> [] \<and>
     assetSymbols b = Object_keys (assets b) \<and>
     tokenSymbols b = Object_keys (tokens b) \<and>
     list_all (\<lambda>v. toFixed8 (toNumber v) = v) (amounts b)"

definition gas_twice :: Balance where
  "gas_twice =
     addAsset unmapped (\<lambda>v::Fixed8. v) ''GAS'' no_snapshot
       (addAsset unmapped (\<lambda>v::Fixed8. v) ''GAS'' no_snapshot Balance_empty)"

definition neo_gas_rpx :: Balance where
  "neo_gas_rpx =
     \<lparr>address = ''AK2nJJpJr6o664CWJKi1QRXjqeic2zRp8y'', net = ''TestNet'',
      assetSymbols = [''NEO'', ''GAS''],
      assets = [(''NEO'', \<lparr>unspent = [], spent = [], unconfirmed = []\<rparr>),
                (''GAS'', \<lparr>unspent = [coin_a], spent = [coin_c], unconfirmed = [coin_b]\<rparr>)],
      tokenSymbols = [''RPX''], tokens = [(''RPX'', 250000000)]\<rparr>"

section \<open>Properties\<close>

subsection \<open>Evaluation helpers\<close>

lemma toUpperCase_ascii: "is_ascii s \<Longrightarrow> toUpperCase beyond s = map upper_char s"
  by (simp add: toUpperCase_def)

lemma toUpperCase_GAS: "toUpperCase beyond ''GAS'' = ''GAS''"
proof -
  have "is_ascii ''GAS''" by code_simp
  moreover have "map upper_char ''GAS'' = ''GAS''" by code_simp
  ultimately show ?thesis by (simp only: toUpperCase_ascii)
qed

lemma toUpperCase_neo: "toUpperCase beyond ''neo'' = ''NEO''"
proof -
  have "is_ascii ''neo''" by code_simp
  moreover have "map upper_char ''neo'' = ''NEO''" by code_simp
  ultimately show ?thesis by (simp only: toUpperCase_ascii)
qed

subsection \<open>Receiving a coin of an asset that is not tracked yet\<close>

text \<open>
  C1. Scenario A: on the empty Balance, an unconfirmed transaction with no inputs and one
  output whose asset id the registry maps to \<open>GAS\<close>. The claim expects the call to create
  the GAS entry and to append the coin to its \<open>unconfirmed\<close> list. The code creates the
  entry through \<open>addAsset\<close>, but goes on with the \<open>assetBalance\<close> it read before, which is
  \<open>undefined\<close>: the call throws a TypeError and leaves the new entry with an empty
  \<open>unconfirmed\<close> list.
\<close>

theorem applyTx_scenario_A_throws:
  assumes "ASSETS (assetId output) = Some ''GAS''"
  shows "applyTx beyond ASSETS \<lparr>inputs = [], outputs = [output], hash = h\<rparr> False Balance_empty =
           Threw TypeError
             (Balance_empty\<lparr>assetSymbols := [''GAS''],
                            assets := [(''GAS'', \<lparr>unspent = [], spent = [], unconfirmed = []\<rparr>)]\<rparr>)"
  using assms
  by (simp add: applyTx_def Balance_empty_def obj_get_def obj_set_def property_key_def
      addAsset_def Let_def toUpperCase_GAS AssetBalance_new_def coins_new_def no_snapshot_def)

theorem applyTx_scenario_A_throws_witness:
  "ASSETS_example (assetId \<lparr>assetId = ''602c79718b16e442de58778e148d0b1084e3b2dffd5de6b7b16cee7969282de7'',
        out_value = 1000000000, scriptHash = ''ab''\<rparr>) = Some ''GAS'' \<and>
   applyTx unmapped ASSETS_example
     \<lparr>inputs = [],
      outputs = [\<lparr>assetId = ''602c79718b16e442de58778e148d0b1084e3b2dffd5de6b7b16cee7969282de7'',
                  out_value = 1000000000, scriptHash = ''ab''\<rparr>],
      hash = ''t1''\<rparr> False Balance_empty =
   Threw TypeError
     \<lparr>address = [], net = ''NoNet'', assetSymbols = [''GAS''],
      assets = [(''GAS'', \<lparr>unspent = [], spent = [], unconfirmed = []\<rparr>)],
      tokenSymbols = [], tokens = []\<rparr>"
proof -
  have reg: "ASSETS_example (assetId \<lparr>assetId = ''602c79718b16e442de58778e148d0b1084e3b2dffd5de6b7b16cee7969282de7'',
        out_value = 1000000000, scriptHash = ''ab''\<rparr>) = Some ''GAS''"
    by (simp add: ASSETS_example_def)
  show ?thesis
    using reg applyTx_scenario_A_throws [where ASSETS = ASSETS_example and beyond = unmapped and h = "''t1''", OF reg]
    by (simp add: Balance_empty_def)
qed

text \<open>
  C2. \<open>applyTx\<close> is claimed never to raise when every output's asset id is in the registry,
  also when the symbol is not tracked yet. On a Balance that tracks NEO only, a confirmed
  transaction with one foreign input and one GAS output (an asset id of the registry)
  throws a TypeError; the foreign input is skipped without error, the GAS symbol is added,
  and no coin is recorded.
\<close>

theorem applyTx_confirmed_untracked_symbol_throws:
  "applyTx unmapped ASSETS_example
     \<lparr>inputs = [\<lparr>prevHash = ''t0'', prevIndex = 0\<rparr>],
      outputs = [\<lparr>assetId = ''602c79718b16e442de58778e148d0b1084e3b2dffd5de6b7b16cee7969282de7'',
                  out_value = 1000000000, scriptHash = ''ab''\<rparr>],
      hash = ''t1''\<rparr> True neo_only =
   Threw TypeError
     \<lparr>address = [], net = ''NoNet'', assetSymbols = [''NEO'', ''GAS''],
      assets = [(''NEO'', \<lparr>unspent = [], spent = [], unconfirmed = []\<rparr>),
                (''GAS'', \<lparr>unspent = [], spent = [], unconfirmed = []\<rparr>)],
      tokenSymbols = [], tokens = []\<rparr>"
  by (simp add: applyTx_def neo_only_def Balance_empty_def obj_get_def obj_set_def property_key_def
      addAsset_def Let_def toUpperCase_GAS toUpperCase_neo AssetBalance_new_def coins_new_def
      no_snapshot_def ASSETS_example_def)

subsection \<open>Objects and array helpers\<close>

lemma obj_get_defined_iff: "obj_get obj k \<noteq> None \<longleftrightarrow> k \<in> set (map fst obj)"
  by (auto simp: obj_get_def map_of_eq_None_iff)

lemma obj_set_keys:
  "obj_get obj s \<noteq> None \<Longrightarrow> map fst (obj_set obj s v) = map fst obj"
  by (auto simp: obj_get_def obj_set_def update_keys map_of_eq_None_iff)

lemma update_present_conv:
  "distinct (map fst al) \<Longrightarrow> map_of al k = Some v \<Longrightarrow>
   AList.update k (f v) al = map (\<lambda>(k', w). (k', if k' = k then f w else w)) al"
proof (induction al)
  case Nil
  then show ?case by simp
next
  case (Cons p al)
  obtain k0 v0 where p: "p = (k0, v0)" by (cases p)
  show ?case
  proof (cases "k0 = k")
    case True
    with Cons.prems p have v: "v0 = v" by simp
    from Cons.prems p True have "k \<notin> fst ` set al" by simp
    then have "map (\<lambda>(k', w). (k', if k' = k then f w else w)) al = al"
      by (induction al) (auto simp: case_prod_beta)
    with True p v show ?thesis by simp
  next
    case False
    with Cons p show ?thesis by simp
  qed
qed

lemma findIndex_None: "findIndex p xs = None \<longleftrightarrow> (\<forall>x \<in> set xs. \<not> p x)"
  by (induction xs) auto

lemma findIndex_Some:
  "findIndex p xs = Some i \<Longrightarrow>
   i < length xs \<and> find p xs = Some (xs ! i) \<and> p (xs ! i) \<and>
   splice_rest i xs = remove1 (xs ! i) xs \<and> splice_removed i xs = [xs ! i]"
proof (induction xs arbitrary: i)
  case Nil
  then show ?case by simp
next
  case (Cons x xs)
  show ?case
  proof (cases "p x")
    case True
    with Cons.prems show ?thesis by (simp add: splice_rest_def splice_removed_def)
  next
    case False
    with Cons.prems obtain j where j: "findIndex p xs = Some j" "i = Suc j" by auto
    from Cons.IH [OF j(1)] False j(2) show ?thesis
      by (auto simp: splice_rest_def splice_removed_def)
  qed
qed

subsection \<open>The spend phase\<close>

lemma findFunc_matches: "findFunc (prevHash inp) (prevIndex inp) = matches inp"
  by (rule ext) (simp add: findFunc_def matches_def)

lemma spendInput_spend_in:
  "\<forall>s \<in> set symbols. obj_get (assets b) s \<noteq> None \<Longrightarrow>
   spendInput inp symbols b = Returned (spend_in symbols inp b)"
proof (induction symbols)
  case Nil
  then show ?case by (simp add: spend_in_def)
next
  case (Cons s symbols)
  from Cons.prems obtain ab where ab: "obj_get (assets b) s = Some ab" by auto
  show ?case
  proof (cases "findIndex (matches inp) (unspent ab)")
    case None
    then have "\<not> owns b inp s"
      by (simp add: owns_def ab findIndex_None)
    with None ab Cons show ?thesis
      by (simp add: spend_in_def findFunc_matches)
  next
    case (Some i)
    note fi = findIndex_Some [OF Some]
    from fi have "owns b inp s"
      by (auto simp: owns_def ab)
    with Some ab fi show ?thesis
      by (simp add: spend_in_def findFunc_matches move_to_spent_def)
  qed
qed

lemma spend_in_keys: "map fst (assets (spend_in symbols inp b)) = map fst (assets b)"
  by (auto simp: spend_in_def obj_set_keys split: option.splits)

lemma spend_in_assetSymbols: "assetSymbols (spend_in symbols inp b) = assetSymbols b"
  by (simp add: spend_in_def split: option.splits)

lemma spendCoins_fold:
  "\<forall>s \<in> set symbols. obj_get (assets b) s \<noteq> None \<Longrightarrow>
   spendCoins inps symbols b = Returned (fold (spend_in symbols) inps b)"
proof (induction inps arbitrary: b)
  case Nil
  then show ?case by simp
next
  case (Cons inp inps)
  have "\<forall>s \<in> set symbols. obj_get (assets (spend_in symbols inp b)) s \<noteq> None"
    using Cons.prems by (simp only: obj_get_defined_iff spend_in_keys)
  from Cons.IH [OF this] Cons.prems show ?case
    by (simp add: spendInput_spend_in)
qed

text \<open>
  C3. On a well-formed Balance the inner loop of the spend phase does, for one input, what
  \<open>spend_in\<close> says: the first asset in the order of \<open>assetSymbols\<close> whose \<open>unspent\<close> holds a
  coin with the input's identity moves that coin to the end of its \<open>spent\<close>, no later asset
  is touched, and without such an asset the Balance is returned unchanged, with no error.
  The spend phase of \<open>applyTx\<close> is this step taken for each input in order, and the
  receive phase starts from its result.
\<close>

theorem applyTx_spend_phase:
  assumes "well_formed b"
  shows "spendInput inp (assetSymbols b) b = Returned (spend_in (assetSymbols b) inp b) \<and>
         applyTx beyond ASSETS tx confirmed b =
           addNewCoins beyond ASSETS (hash tx) confirmed 0 (outputs tx)
             (fold (spend_in (assetSymbols b)) (inputs tx) b)"
proof -
  from assms have t: "\<forall>s \<in> set (assetSymbols b). obj_get (assets b) s \<noteq> None"
    by (simp add: well_formed_def)
  show ?thesis
    using spendInput_spend_in [OF t] spendCoins_fold [OF t]
    by (simp add: applyTx_def)
qed

theorem applyTx_spend_phase_witness:
  "well_formed neo_gas \<and>
   spendInput \<lparr>prevHash = ''t1'', prevIndex = 0\<rparr> (assetSymbols neo_gas) neo_gas =
     Returned (neo_gas\<lparr>assets :=
       [(''NEO'', \<lparr>unspent = [], spent = [], unconfirmed = []\<rparr>),
        (''GAS'', \<lparr>unspent = [], spent = [coin_c, coin_a], unconfirmed = [coin_b]\<rparr>)]\<rparr>) \<and>
   applyTx unmapped ASSETS_example
     \<lparr>inputs = [\<lparr>prevHash = ''t1'', prevIndex = 0\<rparr>, \<lparr>prevHash = ''t7'', prevIndex = 0\<rparr>],
      outputs = [], hash = ''t3''\<rparr> True neo_gas =
     Returned (neo_gas\<lparr>assets :=
       [(''NEO'', \<lparr>unspent = [], spent = [], unconfirmed = []\<rparr>),
        (''GAS'', \<lparr>unspent = [], spent = [coin_c, coin_a], unconfirmed = [coin_b]\<rparr>)]\<rparr>)"
proof -
  have wf: "well_formed neo_gas"
    by (simp add: well_formed_def neo_gas_def obj_get_def)
  have one: "spend_in (assetSymbols neo_gas) \<lparr>prevHash = ''t1'', prevIndex = 0\<rparr> neo_gas =
      neo_gas\<lparr>assets :=
       [(''NEO'', \<lparr>unspent = [], spent = [], unconfirmed = []\<rparr>),
        (''GAS'', \<lparr>unspent = [], spent = [coin_c, coin_a], unconfirmed = [coin_b]\<rparr>)]\<rparr>"
    by (simp add: spend_in_def owns_def matches_def move_to_spent_def neo_gas_def obj_get_def
        obj_set_def coin_a_def coin_b_def coin_c_def)
  have two: "fold (spend_in (assetSymbols neo_gas))
       [\<lparr>prevHash = ''t1'', prevIndex = 0\<rparr>, \<lparr>prevHash = ''t7'', prevIndex = 0\<rparr>] neo_gas =
      neo_gas\<lparr>assets :=
       [(''NEO'', \<lparr>unspent = [], spent = [], unconfirmed = []\<rparr>),
        (''GAS'', \<lparr>unspent = [], spent = [coin_c, coin_a], unconfirmed = [coin_b]\<rparr>)]\<rparr>"
    by (simp add: spend_in_def owns_def matches_def move_to_spent_def neo_gas_def obj_get_def
        obj_set_def coin_a_def coin_b_def coin_c_def)
  note th = applyTx_spend_phase [OF wf, of "\<lparr>prevHash = ''t1'', prevIndex = 0\<rparr>" unmapped ASSETS_example
        "\<lparr>inputs = [\<lparr>prevHash = ''t1'', prevIndex = 0\<rparr>, \<lparr>prevHash = ''t7'', prevIndex = 0\<rparr>],
          outputs = [], hash = ''t3''\<rparr>" True]
  have s1: "spendInput \<lparr>prevHash = ''t1'', prevIndex = 0\<rparr> (assetSymbols neo_gas) neo_gas =
     Returned (neo_gas\<lparr>assets :=
       [(''NEO'', \<lparr>unspent = [], spent = [], unconfirmed = []\<rparr>),
        (''GAS'', \<lparr>unspent = [], spent = [coin_c, coin_a], unconfirmed = [coin_b]\<rparr>)]\<rparr>)"
    using th [THEN conjunct1] by (simp only: one)
  have s2: "applyTx unmapped ASSETS_example
     \<lparr>inputs = [\<lparr>prevHash = ''t1'', prevIndex = 0\<rparr>, \<lparr>prevHash = ''t7'', prevIndex = 0\<rparr>],
      outputs = [], hash = ''t3''\<rparr> True neo_gas =
     Returned (neo_gas\<lparr>assets :=
       [(''NEO'', \<lparr>unspent = [], spent = [], unconfirmed = []\<rparr>),
        (''GAS'', \<lparr>unspent = [], spent = [coin_c, coin_a], unconfirmed = [coin_b]\<rparr>)]\<rparr>)"
    using th [THEN conjunct2] by (simp only: Transaction.simps two addNewCoins.simps)
  show ?thesis
    using wf s1 s2 by (intro conjI)
qed

subsection \<open>confirm\<close>

lemma promote_idem: "promote (promote ab) = promote ab"
  by (simp add: promote_def)

lemma promote_tracked_keys: "map fst (promote_tracked symbols obj) = map fst obj"
  by (simp add: promote_tracked_def case_prod_beta comp_def)

lemma promote_tracked_idem:
  "promote_tracked symbols (promote_tracked symbols obj) = promote_tracked symbols obj"
  by (auto simp: promote_tracked_def promote_idem)

lemma confirm_loop_closed:
  "distinct (map fst (assets b)) \<Longrightarrow> \<forall>s \<in> set symbols. obj_get (assets b) s \<noteq> None \<Longrightarrow>
   confirm_loop symbols b = Returned (b\<lparr>assets := promote_tracked symbols (assets b)\<rparr>)"
proof (induction symbols arbitrary: b)
  case Nil
  then show ?case by (simp add: promote_tracked_def case_prod_beta)
next
  case (Cons s symbols)
  from Cons.prems obtain ab where ab: "map_of (assets b) s = Some ab"
    by (auto simp: obj_get_def)
  let ?A1 = "map (\<lambda>(k', w). (k', if k' = s then promote w else w)) (assets b)"
  have upd: "obj_set (assets b) s (promote ab) = ?A1"
    unfolding obj_set_def using Cons.prems(1) ab by (rule update_present_conv)
  have keys: "map fst ?A1 = map fst (assets b)"
    by (simp add: case_prod_beta comp_def)
  have d1: "distinct (map fst (assets (b\<lparr>assets := ?A1\<rparr>)))"
    using Cons.prems(1) by (simp add: case_prod_beta comp_def)
  have t1: "\<forall>s' \<in> set symbols. obj_get (assets (b\<lparr>assets := ?A1\<rparr>)) s' \<noteq> None"
  proof
    fix s' assume "s' \<in> set symbols"
    with Cons.prems(2) have "s' \<in> set (map fst (assets b))"
      unfolding obj_get_defined_iff by auto
    then have "s' \<in> set (map fst ?A1)" by (simp only: keys)
    then show "obj_get (assets (b\<lparr>assets := ?A1\<rparr>)) s' \<noteq> None"
      unfolding obj_get_defined_iff by simp
  qed
  have comp: "promote_tracked symbols ?A1 = promote_tracked (s # symbols) (assets b)"
    by (auto simp: promote_tracked_def promote_idem)
  have "confirm_loop (s # symbols) b = confirm_loop symbols (b\<lparr>assets := ?A1\<rparr>)"
    using ab upd by (simp add: obj_get_def promote_def)
  also have "\<dots> = Returned (b\<lparr>assets := ?A1\<rparr>\<lparr>assets := promote_tracked symbols ?A1\<rparr>)"
    using Cons.IH [OF d1 t1] by simp
  finally show ?case using comp by simp
qed

text \<open>
  C4. On a well-formed Balance \<open>confirm\<close> returns the Balance in which the entry of every
  symbol of \<open>assetSymbols\<close> has its unconfirmed coins appended, in order, to the end of
  \<open>unspent\<close> and its \<open>unconfirmed\<close> emptied; the names and order of the entries, the
  \<open>spent\<close> lists and every other field are as before. A second \<open>confirm\<close> right after the
  first returns that same state again, so no \<open>unspent\<close> list changes.
\<close>

theorem confirm_promotes_unconfirmed:
  assumes "well_formed b"
  shows "confirm b = Returned (b\<lparr>assets := promote_tracked (assetSymbols b) (assets b)\<rparr>) \<and>
         confirm (state_of (confirm b)) = confirm b"
proof -
  let ?b' = "b\<lparr>assets := promote_tracked (assetSymbols b) (assets b)\<rparr>"
  from assms have d: "distinct (map fst (assets b))"
    and t: "\<forall>s \<in> set (assetSymbols b). obj_get (assets b) s \<noteq> None"
    by (simp_all add: well_formed_def)
  have first: "confirm b = Returned ?b'"
    unfolding confirm_def using d t by (rule confirm_loop_closed)
  have d': "distinct (map fst (assets ?b'))"
    using d by (simp add: promote_tracked_keys)
  have t': "\<forall>s \<in> set (assetSymbols ?b'). obj_get (assets ?b') s \<noteq> None"
    using t unfolding obj_get_defined_iff by (simp add: promote_tracked_keys)
  have "confirm ?b' = Returned (?b'\<lparr>assets := promote_tracked (assetSymbols ?b') (assets ?b')\<rparr>)"
    unfolding confirm_def using d' t' by (rule confirm_loop_closed)
  then have "confirm ?b' = Returned ?b'"
    by (simp add: promote_tracked_idem)
  with first show ?thesis by simp
qed

theorem confirm_promotes_unconfirmed_witness:
  "well_formed neo_gas \<and>
   confirm neo_gas =
     Returned (neo_gas\<lparr>assets :=
       [(''NEO'', \<lparr>unspent = [], spent = [], unconfirmed = []\<rparr>),
        (''GAS'', \<lparr>unspent = [coin_a, coin_b], spent = [coin_c], unconfirmed = []\<rparr>)]\<rparr>) \<and>
   confirm (state_of (confirm neo_gas)) = confirm neo_gas"
proof -
  have wf: "well_formed neo_gas"
    by (simp add: well_formed_def neo_gas_def obj_get_def)
  have ev: "promote_tracked (assetSymbols neo_gas) (assets neo_gas) =
       [(''NEO'', \<lparr>unspent = [], spent = [], unconfirmed = []\<rparr>),
        (''GAS'', \<lparr>unspent = [coin_a, coin_b], spent = [coin_c], unconfirmed = []\<rparr>)]"
    by (simp add: promote_tracked_def promote_def neo_gas_def)
  note th = confirm_promotes_unconfirmed [OF wf]
  have c1: "confirm neo_gas =
     Returned (neo_gas\<lparr>assets :=
       [(''NEO'', \<lparr>unspent = [], spent = [], unconfirmed = []\<rparr>),
        (''GAS'', \<lparr>unspent = [coin_a, coin_b], spent = [coin_c], unconfirmed = []\<rparr>)]\<rparr>)"
    using th [THEN conjunct1] by (simp only: ev)
  show ?thesis
    using wf c1 th [THEN conjunct2] by (intro conjI)
qed

subsection \<open>verifyAssets\<close>

lemma promise_all_map_Inr: "promise_all (map Inr xs) = Inr xs"
  by (induction xs) simp_all

lemma promise_all_InrD: "promise_all ps = Inr xs \<Longrightarrow> ps = map Inr xs"
  by (induction ps arbitrary: xs rule: promise_all.induct) (auto split: sum.splits)

lemma promise_all_Inr: "promise_all ps = Inr xs \<longleftrightarrow> ps = map Inr xs"
  using promise_all_map_Inr promise_all_InrD by blast

lemma promise_all_Inl: "(\<exists>e. promise_all ps = Inl e) \<longleftrightarrow> (\<exists>p \<in> set ps. isl p)"
  by (induction ps rule: promise_all.induct) (auto split: sum.splits)

lemma verifyCoin_cases:
  "verifyCoin getTxOut url c =
     (case getTxOut url (txid c) (index c) of
        Inl e \<Rightarrow> Inl e
      | Inr r \<Rightarrow> Inr (coin_valid getTxOut url c))"
  by (auto simp: verifyCoin_def coin_valid_def split: sum.splits option.splits)

lemma verifyCoins_ok:
  "\<forall>c \<in> set cs. \<not> query_fails getTxOut url c \<Longrightarrow>
   verifyCoins getTxOut url cs = Inr (map (coin_valid getTxOut url) cs)"
  unfolding verifyCoins_def promise_all_Inr
  by (auto simp: verifyCoin_cases query_fails_def split: sum.splits)

lemma verifyCoins_fail:
  "c \<in> set cs \<Longrightarrow> query_fails getTxOut url c \<Longrightarrow> \<exists>e. verifyCoins getTxOut url cs = Inl e"
  unfolding verifyCoins_def promise_all_Inl
  by (auto simp: verifyCoin_cases query_fails_def split: sum.splits intro!: bexI [of _ c])

lemma fold_sort_coin:
  "fold sort_coin (zip (map v cs) cs)
     \<lparr>balance_like = Some bl, unspent_like = Some us, spent_like = Some sp, unconfirmed_like = uc\<rparr> =
   \<lparr>balance_like = Some (bl + sum_list (map coin_value (filter v cs))),
    unspent_like = Some (us @ filter v cs),
    spent_like = Some (sp @ filter (\<lambda>c. \<not> v c) cs),
    unconfirmed_like = uc\<rparr>"
  by (induction cs arbitrary: bl us sp) (simp_all add: sort_coin_def)

lemma Coin_new_id: "Coin_new (\<lambda>v. v) = id"
  by (rule ext) (simp add: Coin_new_def)

lemma verifyAssetBalance_ok:
  "\<forall>c \<in> set (unspent ab). \<not> query_fails getTxOut url c \<Longrightarrow>
   verifyAssetBalance getTxOut url (Some ab) = Inr (reconciled getTxOut url ab)"
  by (simp add: verifyAssetBalance_def verifyCoins_ok newAssetBalance_init_def fold_sort_coin
      AssetBalance_new_def coins_new_def Coin_new_id reconciled_def)

lemma verifyAssetBalance_Inr:
  assumes "verifyAssetBalance getTxOut url oab = Inr x"
  shows "\<exists>ab. oab = Some ab \<and> (\<forall>c \<in> set (unspent ab). \<not> query_fails getTxOut url c) \<and>
              x = reconciled getTxOut url ab"
proof (cases oab)
  case None
  with assms show ?thesis by (simp add: verifyAssetBalance_def)
next
  case (Some ab)
  have nofail: "\<forall>c \<in> set (unspent ab). \<not> query_fails getTxOut url c"
  proof (rule ccontr)
    assume "\<not> ?thesis"
    then obtain c where "c \<in> set (unspent ab)" "query_fails getTxOut url c" by auto
    from verifyCoins_fail [OF this] assms Some show False
      by (auto simp: verifyAssetBalance_def)
  qed
  with assms Some show ?thesis by (simp add: verifyAssetBalance_ok)
qed

lemma fold_obj_set_get:
  "obj_get (fold (\<lambda>(s, nb) as. obj_set as s nb) (zip symbols (map h symbols)) obj) k =
     (if k \<in> set symbols then Some (h k) else obj_get obj k)"
proof (induction symbols arbitrary: obj)
  case Nil
  then show ?case by simp
next
  case (Cons s symbols)
  show ?case
    by (simp add: Cons.IH) (simp add: obj_get_def obj_set_def update_conv')
qed

lemma promise_all_map_Inr_iff:
  "promise_all (map g xs) = Inr ys \<Longrightarrow> ys = map (projr \<circ> g) xs \<and> (\<forall>x \<in> set xs. g x = Inr (projr (g x)))"
proof (induction xs arbitrary: ys)
  case Nil
  then show ?case by simp
next
  case (Cons x xs)
  show ?case
  proof (cases "g x")
    case (Inl e)
    with Cons.prems show ?thesis by simp
  next
    case (Inr y)
    show ?thesis
    proof (cases "promise_all (map g xs)")
      case (Inl e)
      with Cons.prems Inr show ?thesis by simp
    next
      case (Inr zs)
      from Cons.IH [OF Inr] \<open>g x = Inr y\<close> Cons.prems Inr show ?thesis by simp
    qed
  qed
qed

lemma verifyAssets_Returned:
  assumes "verifyAssets getTxOut url b = Returned b'" and "s \<in> set (assetSymbols b)"
  shows "\<exists>ab. obj_get (assets b) s = Some ab \<and>
              (\<forall>c \<in> set (unspent ab). \<not> query_fails getTxOut url c) \<and>
              obj_get (assets b') s = Some (reconciled getTxOut url ab)"
proof -
  define g where "g = (\<lambda>key. verifyAssetBalance getTxOut url (obj_get (assets b) key))"
  have unf: "verifyAssets getTxOut url b =
     (case promise_all (map g (assetSymbols b)) of
        Inl e \<Rightarrow> Threw e b
      | Inr newBalances \<Rightarrow>
          Returned (b\<lparr>assets := fold (\<lambda>(symbol, newBalance) as. obj_set as symbol newBalance)
                                     (zip (assetSymbols b) newBalances) (assets b)\<rparr>))"
    by (simp add: verifyAssets_def g_def Let_def)
  show ?thesis
  proof (cases "promise_all (map g (assetSymbols b))")
    case (Inl e)
    with unf assms(1) show ?thesis by simp
  next
    case (Inr nbs)
    with unf assms(1) have b': "b' = b\<lparr>assets := fold (\<lambda>(symbol, newBalance) as. obj_set as symbol newBalance)
                                     (zip (assetSymbols b) nbs) (assets b)\<rparr>"
      by simp
    from promise_all_map_Inr_iff [OF Inr] assms(2)
    have nbs_eq: "nbs = map (projr \<circ> g) (assetSymbols b)" and gs: "g s = Inr (projr (g s))"
      by simp_all
    from verifyAssetBalance_Inr [OF gs [unfolded g_def]] obtain ab where
      ab: "obj_get (assets b) s = Some ab" "\<forall>c \<in> set (unspent ab). \<not> query_fails getTxOut url c"
          "projr (g s) = reconciled getTxOut url ab"
      by (auto simp: g_def)
    have "obj_get (assets b') s = Some ((projr \<circ> g) s)"
      unfolding b' nbs_eq using assms(2) by (simp add: fold_obj_set_get)
    with ab show ?thesis by simp
  qed
qed

lemma verifyAssets_Threw:
  assumes "s \<in> set (assetSymbols b)" and "obj_get (assets b) s = Some ab"
    and "c \<in> set (unspent ab)" and "query_fails getTxOut url c"
  shows "\<exists>e. verifyAssets getTxOut url b = Threw e b"
proof -
  define g where "g = (\<lambda>key. verifyAssetBalance getTxOut url (obj_get (assets b) key))"
  from verifyCoins_fail [OF assms(3,4)] obtain e where "verifyCoins getTxOut url (unspent ab) = Inl e" ..
  with assms(2) have "g s = Inl e"
    by (simp add: g_def verifyAssetBalance_def)
  with assms(1) have "\<exists>p \<in> set (map g (assetSymbols b)). isl p"
    by force
  then obtain e' where "promise_all (map g (assetSymbols b)) = Inl e'"
    using promise_all_Inl by blast
  then have "verifyAssets getTxOut url b = Threw e' b"
    by (simp add: verifyAssets_def g_def Let_def)
  then show ?thesis ..
qed





text \<open>
  C8. When the query for one coin of a listed asset fails, \<open>verifyAssets\<close> fails, and the
  Balance it leaves is the one it was called on: no replacement has been stored.
\<close>

theorem verifyAssets_failure_keeps_balance:
  assumes "s \<in> set (assetSymbols b)" and "obj_get (assets b) s = Some ab"
    and "c \<in> set (unspent ab)" and "query_fails getTxOut url c"
  shows "\<exists>e. verifyAssets getTxOut url b = Threw e b"
  using assms by (rule verifyAssets_Threw)

theorem verifyAssets_failure_keeps_balance_witness:
  "''GAS'' \<in> set (assetSymbols neo_gas) \<and>
   obj_get (assets neo_gas) ''GAS'' =
     Some \<lparr>unspent = [coin_a], spent = [coin_c], unconfirmed = [coin_b]\<rparr> \<and>
   coin_a \<in> set (unspent \<lparr>unspent = [coin_a], spent = [coin_c], unconfirmed = [coin_b]\<rparr>) \<and>
   query_fails node_down ''http://seed'' coin_a \<and>
   verifyAssets node_down ''http://seed'' neo_gas = Threw (QueryError ''timeout'') neo_gas"
proof -
  have mem: "''GAS'' \<in> set (assetSymbols neo_gas)"
    by (simp add: neo_gas_def)
  have look: "obj_get (assets neo_gas) ''GAS'' =
      Some \<lparr>unspent = [coin_a], spent = [coin_c], unconfirmed = [coin_b]\<rparr>"
    by (simp add: obj_get_def neo_gas_def)
  have coin: "coin_a \<in> set (unspent \<lparr>unspent = [coin_a], spent = [coin_c], unconfirmed = [coin_b]\<rparr>)"
    by simp
  have fails: "query_fails node_down ''http://seed'' coin_a"
    by (simp add: query_fails_def node_down_def)
  from verifyAssets_failure_keeps_balance [OF mem look coin fails]
  obtain e where e: "verifyAssets node_down ''http://seed'' neo_gas = Threw e neo_gas" ..
  have "verifyAssets node_down ''http://seed'' neo_gas = Threw (QueryError ''timeout'') neo_gas"
    by (simp add: verifyAssets_def verifyAssetBalance_def verifyCoins_def verifyCoin_def
        node_down_def newAssetBalance_init_def obj_get_def neo_gas_def)
  with e mem look coin fails show ?thesis by simp
qed

text \<open>
  C10. After a successful \<open>verifyAssets\<close> the \<open>spent\<close> list of a listed asset holds the
  coins of its former \<open>unspent\<close> that failed verification, and nothing else: a coin that was
  in \<open>spent\<close> before, and not also in \<open>unspent\<close>, is gone.
\<close>

theorem verifyAssets_drops_spent_history:
  assumes "verifyAssets getTxOut url b = Returned b'" and "s \<in> set (assetSymbols b)"
    and "obj_get (assets b) s = Some ab" and "obj_get (assets b') s = Some ab'"
  shows "spent ab' = filter (\<lambda>c. \<not> coin_valid getTxOut url c) (unspent ab) \<and>
         (\<forall>c \<in> set (spent ab). c \<notin> set (unspent ab) \<longrightarrow> c \<notin> set (spent ab'))"
proof -
  from verifyAssets_Returned [OF assms(1,2)] assms(3,4)
  have "ab' = reconciled getTxOut url ab" by auto
  then show ?thesis by (auto simp: reconciled_def)
qed

theorem verifyAssets_drops_spent_history_witness:
  "verifyAssets node_a ''http://seed'' neo_gas_confirmed =
     Returned (neo_gas_confirmed\<lparr>assets :=
       [(''NEO'', \<lparr>unspent = [], spent = [], unconfirmed = []\<rparr>),
        (''GAS'', \<lparr>unspent = [coin_a], spent = [coin_b], unconfirmed = []\<rparr>)]\<rparr>) \<and>
   ''GAS'' \<in> set (assetSymbols neo_gas_confirmed) \<and>
   obj_get (assets neo_gas_confirmed) ''GAS'' =
     Some \<lparr>unspent = [coin_a, coin_b], spent = [coin_c], unconfirmed = []\<rparr> \<and>
   spent \<lparr>unspent = [coin_a], spent = [coin_b], unconfirmed = []\<rparr> =
     filter (\<lambda>c. \<not> coin_valid node_a ''http://seed'' c) [coin_a, coin_b] \<and>
   coin_c \<notin> set [coin_a, coin_b] \<and> coin_c \<notin> set [coin_b]"
proof -
  let ?after = "neo_gas_confirmed\<lparr>assets :=
       [(''NEO'', \<lparr>unspent = [], spent = [], unconfirmed = []\<rparr>),
        (''GAS'', \<lparr>unspent = [coin_a], spent = [coin_b], unconfirmed = []\<rparr>)]\<rparr>"
  have run: "verifyAssets node_a ''http://seed'' neo_gas_confirmed = Returned ?after"
    by (simp add: verifyAssets_def verifyAssetBalance_def verifyCoins_def verifyCoin_def
        node_a_def sort_coin_def newAssetBalance_init_def AssetBalance_new_def coins_new_def
        Coin_new_def obj_get_def obj_set_def neo_gas_confirmed_def coin_a_def coin_b_def coin_c_def)
  have mem: "''GAS'' \<in> set (assetSymbols neo_gas_confirmed)"
    by (simp add: neo_gas_confirmed_def)
  have before: "obj_get (assets neo_gas_confirmed) ''GAS'' =
      Some \<lparr>unspent = [coin_a, coin_b], spent = [coin_c], unconfirmed = []\<rparr>"
    by (simp add: obj_get_def neo_gas_confirmed_def)
  have after: "obj_get (assets ?after) ''GAS'' =
      Some \<lparr>unspent = [coin_a], spent = [coin_b], unconfirmed = []\<rparr>"
    by (simp add: obj_get_def)
  note th = verifyAssets_drops_spent_history [OF run mem before after]
  have c: "coin_c \<notin> set [coin_a, coin_b]"
    by (simp add: coin_a_def coin_b_def coin_c_def)
  from th c have gone: "coin_c \<notin> set [coin_b]" by simp
  from th have sp: "spent \<lparr>unspent = [coin_a], spent = [coin_b], unconfirmed = []\<rparr> =
     filter (\<lambda>c. \<not> coin_valid node_a ''http://seed'' c) [coin_a, coin_b]"
    by simp
  show ?thesis
    using run mem before sp c gone by (intro conjI)
qed

subsection \<open>Invariants of the coin lists\<close>

lemma obj_set_all:
  "\<forall>p \<in> set obj. P (snd p) \<Longrightarrow> P v \<Longrightarrow> \<forall>p \<in> set (obj_set obj k v). P (snd p)"
  unfolding obj_set_def by (induction obj) auto

lemma obj_get_mem: "obj_get obj k = Some v \<Longrightarrow> (k, v) \<in> set obj"
  by (simp add: obj_get_def map_of_SomeD)

lemma all_assets_update:
  "all_assets P b \<Longrightarrow> P v \<Longrightarrow> all_assets P (b\<lparr>assets := obj_set (assets b) k v\<rparr>)"
  using obj_set_all [of "assets b" P v k] by (simp add: all_assets_def list_all_iff)

lemma all_assets_get: "all_assets P b \<Longrightarrow> obj_get (assets b) k = Some ab \<Longrightarrow> P ab"
  using obj_get_mem [of "assets b" k ab] by (auto simp: all_assets_def list_all_iff)

lemma all_assets_mono: "all_assets P b \<Longrightarrow> (\<And>ab. P ab \<Longrightarrow> Q ab) \<Longrightarrow> all_assets Q b"
  by (auto simp: all_assets_def list_all_iff)

lemma spendInput_all:
  assumes "all_assets P b"
    and "\<And>ab j. P ab \<Longrightarrow> j < length (unspent ab) \<Longrightarrow>
           P (ab\<lparr>unspent := splice_rest j (unspent ab),
                 spent := spent ab @ splice_removed j (unspent ab)\<rparr>)"
  shows "all_assets P (state_of (spendInput inp symbols b))"
proof (induction symbols)
  case Nil
  from assms(1) show ?case by simp
next
  case (Cons s symbols)
  show ?case
  proof (cases "obj_get (assets b) s")
    case None
    with assms(1) show ?thesis by simp
  next
    case (Some ab)
    show ?thesis
    proof (cases "findIndex (findFunc (prevHash inp) (prevIndex inp)) (unspent ab)")
      case None
      with Some Cons show ?thesis by simp
    next
      case (Some j)
      from findIndex_Some [OF Some] have j: "j < length (unspent ab)" by simp
      from all_assets_get [OF assms(1) \<open>obj_get (assets b) s = Some ab\<close>] have "P ab" .
      from assms(2) [OF this j] assms(1) Some \<open>obj_get (assets b) s = Some ab\<close>
      show ?thesis by (simp add: all_assets_update)
    qed
  qed
qed

lemma spendCoins_all:
  assumes "all_assets P b"
    and "\<And>ab j. P ab \<Longrightarrow> j < length (unspent ab) \<Longrightarrow>
           P (ab\<lparr>unspent := splice_rest j (unspent ab),
                 spent := spent ab @ splice_removed j (unspent ab)\<rparr>)"
  shows "all_assets P (state_of (spendCoins inps symbols b))"
  using assms(1)
proof (induction inps arbitrary: b)
  case Nil
  then show ?case by simp
next
  case (Cons inp inps)
  from spendInput_all [of P, OF Cons.prems assms(2)]
  have step: "all_assets P (state_of (spendInput inp symbols b))" by blast
  show ?case
  proof (cases "spendInput inp symbols b")
    case (Returned b')
    with step Cons.IH [of b'] show ?thesis by simp
  next
    case (Threw e b')
    with step show ?thesis by simp
  qed
qed

lemma splice_parts:
  "j < length xs \<Longrightarrow> xs = take j xs @ (xs ! j) # drop (Suc j) xs \<and> splice_removed j xs = [xs ! j]"
  by (simp add: id_take_nth_drop [symmetric] splice_removed_def take_Suc_conv_app_nth
      Cons_nth_drop_Suc [symmetric])

lemma distinct_mset_cong: "mset xs = mset ys \<Longrightarrow> distinct xs \<Longrightarrow> distinct ys"
  using mset_eq_imp_distinct_iff by blast

lemma spend_move_inv:
  assumes "ids_distinct ab \<and> hash_below h i confirmed ab" and "j < length (unspent ab)"
  shows "ids_distinct (ab\<lparr>unspent := splice_rest j (unspent ab),
                          spent := spent ab @ splice_removed j (unspent ab)\<rparr>) \<and>
         hash_below h i confirmed (ab\<lparr>unspent := splice_rest j (unspent ab),
                          spent := spent ab @ splice_removed j (unspent ab)\<rparr>)"
proof -
  from splice_parts [OF assms(2)] obtain A B x where
    u: "unspent ab = A @ x # B" and r: "splice_rest j (unspent ab) = A @ B"
    and m: "splice_removed j (unspent ab) = [x]"
    unfolding splice_rest_def by metis
  from assms(1) have d: "distinct (map coin_id ((A @ x # B) @ spent ab @ unconfirmed ab))"
    by (simp add: ids_distinct_def u)
  have "mset (map coin_id ((A @ x # B) @ spent ab @ unconfirmed ab)) =
        mset (map coin_id ((A @ B) @ (spent ab @ [x]) @ unconfirmed ab))"
    by simp
  from distinct_mset_cong [OF this d]
  have one: "ids_distinct (ab\<lparr>unspent := splice_rest j (unspent ab),
                          spent := spent ab @ splice_removed j (unspent ab)\<rparr>)"
    by (simp add: ids_distinct_def r m)
  from assms(1) have w: "\<forall>c \<in> set (watched confirmed ab). txid c = h \<longrightarrow> index c < i"
    by (simp add: hash_below_def list_all_iff)
  have su: "set (splice_rest j (unspent ab)) \<union> set (splice_removed j (unspent ab)) =
      set (unspent ab)"
    by (simp only: r m) (auto simp: u)
  have "set (watched confirmed (ab\<lparr>unspent := splice_rest j (unspent ab),
                          spent := spent ab @ splice_removed j (unspent ab)\<rparr>)) = set (watched confirmed ab)"
    using su by (auto simp: watched_def)
  with w have two: "hash_below h i confirmed (ab\<lparr>unspent := splice_rest j (unspent ab),
                          spent := spent ab @ splice_removed j (unspent ab)\<rparr>)"
    by (simp add: hash_below_def list_all_iff)
  from one two show ?thesis ..
qed

lemma hash_below_Suc: "hash_below h i confirmed ab \<Longrightarrow> hash_below h (Suc i) confirmed ab"
  by (auto simp: hash_below_def list_all_iff)

lemma findIndex_split:
  "findIndex p xs = Some j \<Longrightarrow>
   \<exists>A x B. xs = A @ x # B \<and> p x \<and> splice_rest j xs = A @ B"
proof -
  assume f: "findIndex p xs = Some j"
  from findIndex_Some [OF f] have j: "j < length xs" and px: "p (xs ! j)" by simp_all
  from splice_parts [OF j] have "xs = take j xs @ (xs ! j) # drop (Suc j) xs" by simp
  with px show ?thesis unfolding splice_rest_def by blast
qed

lemma addCoin_unconfirmed_inv:
  assumes "ids_distinct ab" and "hash_below h i False ab"
  shows "ids_distinct (addCoin False \<lparr>index = i, txid = h, coin_value = v\<rparr> ab) \<and>
         hash_below h (Suc i) False (addCoin False \<lparr>index = i, txid = h, coin_value = v\<rparr> ab)"
proof -
  from assms(2) have fresh: "\<forall>c \<in> set (unspent ab @ spent ab @ unconfirmed ab). coin_id c \<noteq> (h, i)"
    by (auto simp: hash_below_def watched_def list_all_iff coin_id_def)
  with assms(1) have one: "ids_distinct (addCoin False \<lparr>index = i, txid = h, coin_value = v\<rparr> ab)"
    by (auto simp: ids_distinct_def addCoin_def coin_id_def)
  from assms(2) have two: "hash_below h (Suc i) False (addCoin False \<lparr>index = i, txid = h, coin_value = v\<rparr> ab)"
    by (auto simp: hash_below_def watched_def list_all_iff addCoin_def)
  from one two show ?thesis ..
qed

lemma addCoin_confirmed_inv:
  assumes "ids_distinct ab" and "hash_below h i True ab"
  shows "ids_distinct (addCoin True \<lparr>index = i, txid = h, coin_value = v\<rparr> ab) \<and>
         hash_below h (Suc i) True (addCoin True \<lparr>index = i, txid = h, coin_value = v\<rparr> ab)"
proof -
  let ?coin = "\<lparr>index = i, txid = h, coin_value = v\<rparr> :: Coin"
  from assms(2) have fresh: "\<forall>c \<in> set (unspent ab @ spent ab). coin_id c \<noteq> (h, i)"
    by (auto simp: hash_below_def watched_def list_all_iff coin_id_def)
  from assms(1) have d: "distinct (map coin_id (unspent ab @ spent ab @ unconfirmed ab))"
    by (simp add: ids_distinct_def)
  have two: "hash_below h (Suc i) True (addCoin True ?coin ab)"
    using assms(2) by (auto simp: hash_below_def watched_def list_all_iff addCoin_def Let_def)
  have one: "ids_distinct (addCoin True ?coin ab)"
  proof (cases "findIndex (findFunc h i) (unconfirmed ab)")
    case None
    then have "\<forall>c \<in> set (unconfirmed ab). coin_id c \<noteq> (h, i)"
      by (auto simp: findIndex_None findFunc_def coin_id_def)
    with fresh d None show ?thesis
      by (auto simp: ids_distinct_def addCoin_def coin_id_def)
  next
    case (Some j)
    from findIndex_split [OF Some] obtain A x B where
      c: "unconfirmed ab = A @ x # B" and x: "findFunc h i x"
      and r: "splice_rest j (unconfirmed ab) = A @ B" by blast
    from x have xid: "coin_id x = (h, i)" by (simp add: findFunc_def coin_id_def)
    have eq: "addCoin True ?coin ab = ab\<lparr>unspent := unspent ab @ [?coin], unconfirmed := A @ B\<rparr>"
      using Some r by (simp add: addCoin_def)
    from d have d': "distinct (map coin_id (unspent ab @ spent ab @ A @ x # B))"
      by (simp only: c)
    have "mset (map coin_id (unspent ab @ spent ab @ A @ x # B)) =
          mset (map coin_id ((unspent ab @ [?coin]) @ spent ab @ A @ B))"
      using xid by (simp add: coin_id_def)
    from distinct_mset_cong [OF this d'] show ?thesis
      by (simp add: eq ids_distinct_def)
  qed
  from one two show ?thesis ..
qed

lemma addCoin_inv:
  assumes "ids_distinct ab \<and> hash_below h i confirmed ab"
  shows "ids_distinct (addCoin confirmed (Coin_new (\<lambda>v. v) \<lparr>index = i, txid = h, coin_value = v\<rparr>) ab) \<and>
         hash_below h (Suc i) confirmed
           (addCoin confirmed (Coin_new (\<lambda>v. v) \<lparr>index = i, txid = h, coin_value = v\<rparr>) ab)"
  using assms addCoin_confirmed_inv [of ab h i v] addCoin_unconfirmed_inv [of ab h i v]
  by (cases confirmed) (simp_all add: Coin_new_def)

lemma addAsset_all:
  "all_assets P b \<Longrightarrow> P (AssetBalance_new toFixed8 assetBalance) \<Longrightarrow>
   all_assets P (addAsset beyond toFixed8 symbol assetBalance b)"
  using obj_set_all [of "assets b" P "AssetBalance_new toFixed8 assetBalance" "toUpperCase beyond symbol"]
  by (simp add: addAsset_def all_assets_def list_all_iff Let_def)

lemma ids_distinct_empty: "ids_distinct (AssetBalance_new toFixed8 no_snapshot)"
  by (simp add: ids_distinct_def AssetBalance_new_def no_snapshot_def coins_new_def)

lemma addNewCoins_all:
  "all_assets (\<lambda>ab. ids_distinct ab \<and> hash_below h i confirmed ab) b \<Longrightarrow>
   all_assets ids_distinct (state_of (addNewCoins beyond ASSETS h confirmed i outs b))"
proof (induction outs arbitrary: i b)
  case Nil
  then show ?case by (auto intro: all_assets_mono)
next
  case (Cons out outs)
  let ?P = "\<lambda>i ab. ids_distinct ab \<and> hash_below h i confirmed ab"
  from Cons.prems have plain: "all_assets ids_distinct b"
    by (auto intro: all_assets_mono)
  show ?case
  proof (cases "obj_get (assets b) (property_key (ASSETS (assetId out)))")
    case None
    show ?thesis
    proof (cases "ASSETS (assetId out)")
      case None
      with \<open>obj_get (assets b) (property_key (ASSETS (assetId out))) = None\<close> plain
      show ?thesis by simp
    next
      case (Some s)
      with \<open>obj_get (assets b) (property_key (ASSETS (assetId out))) = None\<close>
        addAsset_all [OF plain ids_distinct_empty]
      show ?thesis by simp
    qed
  next
    case (Some ab)
    let ?coin = "Coin_new (\<lambda>v. v) \<lparr>index = i, txid = h, coin_value = out_value out\<rparr>"
    let ?b1 = "b\<lparr>assets := obj_set (assets b) (property_key (ASSETS (assetId out)))
                              (addCoin confirmed ?coin ab)\<rparr>"
    from all_assets_get [OF Cons.prems Some] have "?P i ab" .
    from addCoin_inv [OF this] have new: "?P (Suc i) (addCoin confirmed ?coin ab)" .
    from Cons.prems have "all_assets (?P (Suc i)) b"
      by (rule all_assets_mono) (simp add: hash_below_Suc)
    from all_assets_update [of "?P (Suc i)", OF this new]
    have "all_assets (?P (Suc i)) ?b1" .
    from Cons.IH [OF this] Some show ?thesis by (simp add: Let_def)
  qed
qed

lemma applyTx_all:
  assumes "all_assets ids_distinct b" and "all_assets (hash_below (hash tx) 0 confirmed) b"
  shows "all_assets ids_distinct (state_of (applyTx beyond ASSETS tx confirmed b))"
proof -
  let ?P = "\<lambda>ab. ids_distinct ab \<and> hash_below (hash tx) 0 confirmed ab"
  from assms have "all_assets ?P b"
    by (auto simp: all_assets_def list_all_iff)
  from spendCoins_all [of ?P, OF this spend_move_inv]
  have sp: "all_assets ?P (state_of (spendCoins (inputs tx) (assetSymbols b) b))" by blast
  show ?thesis
  proof (cases "spendCoins (inputs tx) (assetSymbols b) b")
    case (Returned b')
    with sp addNewCoins_all [of "hash tx" 0 confirmed b'] show ?thesis
      by (simp add: applyTx_def)
  next
    case (Threw e b')
    with sp have "all_assets ids_distinct b'"
      by (auto intro: all_assets_mono)
    with Threw show ?thesis by (simp add: applyTx_def)
  qed
qed

lemma promote_ids_distinct:
  assumes "ids_distinct ab"
  shows "ids_distinct (ab\<lparr>unspent := unspent ab @ unconfirmed ab, unconfirmed := []\<rparr>)"
proof -
  from assms have d: "distinct (map coin_id (unspent ab @ spent ab @ unconfirmed ab))"
    by (simp add: ids_distinct_def)
  have "mset (map coin_id (unspent ab @ spent ab @ unconfirmed ab)) =
        mset (map coin_id ((unspent ab @ unconfirmed ab) @ spent ab @ []))"
    by simp
  from distinct_mset_cong [OF this d] show ?thesis
    by (simp add: ids_distinct_def)
qed

lemma confirm_loop_all:
  "all_assets ids_distinct b \<Longrightarrow> all_assets ids_distinct (state_of (confirm_loop symbols b))"
proof (induction symbols arbitrary: b)
  case Nil
  then show ?case by simp
next
  case (Cons s symbols)
  show ?case
  proof (cases "obj_get (assets b) s")
    case None
    with Cons.prems show ?thesis by simp
  next
    case (Some ab)
    from all_assets_get [OF Cons.prems Some] have "ids_distinct ab" .
    from all_assets_update [OF Cons.prems promote_ids_distinct [OF this]] Some Cons.IH
    show ?thesis by simp
  qed
qed

lemma step_all:
  "all_assets ids_distinct b \<Longrightarrow> admissible operation b \<Longrightarrow>
   all_assets ids_distinct (step beyond ASSETS operation b)"
  by (cases operation) (simp_all add: addAsset_all applyTx_all confirm_def confirm_loop_all)

lemma run_all:
  "all_assets ids_distinct b \<Longrightarrow> admissible_run beyond ASSETS ops b \<Longrightarrow>
   all_assets ids_distinct (run beyond ASSETS ops b)"
  unfolding run_def
  by (induction ops arbitrary: b) (simp_all add: step_all)

lemma ids_distinct_disjoint: "ids_distinct ab \<Longrightarrow> ids_disjoint ab"
  by (auto simp: ids_distinct_def ids_disjoint_def)

text \<open>
  C6. As claimed, for any sequence of \<open>addAsset\<close>, \<open>applyTx\<close> and \<open>confirm\<close> from the empty
  Balance, the invariant fails: \<open>applyTx\<close> does not look for the new coin's identity in
  \<open>unspent\<close> or \<open>spent\<close>, so a transaction applied confirmed and then applied again
  unconfirmed leaves one identity in \<open>unspent\<close> and in \<open>unconfirmed\<close>.
\<close>

theorem reapplied_tx_breaks_disjointness:
  "obj_get (assets (run unmapped ASSETS_example
       [AddAsset ''GAS'' no_snapshot, ApplyTx gas_tx True, ApplyTx gas_tx False] Balance_empty)) ''GAS'' =
     Some \<lparr>unspent = [\<lparr>index = 0, txid = ''t1'', coin_value = 1000000000\<rparr>], spent = [],
           unconfirmed = [\<lparr>index = 0, txid = ''t1'', coin_value = 1000000000\<rparr>]\<rparr> \<and>
   \<not> ids_disjoint \<lparr>unspent = [\<lparr>index = 0, txid = ''t1'', coin_value = 1000000000\<rparr>], spent = [],
           unconfirmed = [\<lparr>index = 0, txid = ''t1'', coin_value = 1000000000\<rparr>]\<rparr>"
  by (simp add: run_def applyTx_def Balance_empty_def obj_get_def obj_set_def property_key_def
      addAsset_def Let_def toUpperCase_GAS AssetBalance_new_def coins_new_def no_snapshot_def
      ASSETS_example_def gas_tx_def addCoin_def Coin_new_def ids_disjoint_def coin_id_def)

text \<open>
  C6, amended. From the empty Balance, along any sequence of admissible calls (snapshots
  without a repeated identity, transactions new to the Balance, \<open>confirm\<close>), including
  calls of \<open>applyTx\<close> that end in an exception, no coin identity occurs twice in the three
  lists of a tracked asset; so the three identity sets are pairwise disjoint.
\<close>

theorem admissible_calls_keep_ids_disjoint:
  assumes "admissible_run beyond ASSETS ops Balance_empty"
    and "obj_get (assets (run beyond ASSETS ops Balance_empty)) s = Some ab"
  shows "ids_disjoint ab \<and> ids_distinct ab"
proof -
  have "all_assets ids_distinct Balance_empty"
    by (simp add: all_assets_def Balance_empty_def)
  from run_all [OF this assms(1)] have "all_assets ids_distinct (run beyond ASSETS ops Balance_empty)" .
  from all_assets_get [OF this assms(2)] have "ids_distinct ab" .
  then show ?thesis by (simp add: ids_distinct_disjoint)
qed

theorem admissible_calls_keep_ids_disjoint_witness:
  "admissible_run unmapped ASSETS_example
     [AddAsset ''GAS'' no_snapshot, ApplyTx gas_tx False, ApplyTx gas_tx True, ApplyTx spend_tx True]
     Balance_empty \<and>
   obj_get (assets (run unmapped ASSETS_example
     [AddAsset ''GAS'' no_snapshot, ApplyTx gas_tx False, ApplyTx gas_tx True, ApplyTx spend_tx True]
     Balance_empty)) ''GAS'' =
     Some \<lparr>unspent = [\<lparr>index = 0, txid = ''t2'', coin_value = 400000000\<rparr>],
           spent = [\<lparr>index = 0, txid = ''t1'', coin_value = 1000000000\<rparr>],
           unconfirmed = []\<rparr> \<and>
   ids_disjoint \<lparr>unspent = [\<lparr>index = 0, txid = ''t2'', coin_value = 400000000\<rparr>],
           spent = [\<lparr>index = 0, txid = ''t1'', coin_value = 1000000000\<rparr>],
           unconfirmed = []\<rparr> \<and>
   ids_distinct \<lparr>unspent = [\<lparr>index = 0, txid = ''t2'', coin_value = 400000000\<rparr>],
           spent = [\<lparr>index = 0, txid = ''t1'', coin_value = 1000000000\<rparr>],
           unconfirmed = []\<rparr>"
proof -
  let ?ops = "[AddAsset ''GAS'' no_snapshot, ApplyTx gas_tx False, ApplyTx gas_tx True,
               ApplyTx spend_tx True]"
  have adm: "admissible_run unmapped ASSETS_example ?ops Balance_empty"
    by (simp add: applyTx_def Balance_empty_def obj_get_def obj_set_def property_key_def
        addAsset_def Let_def toUpperCase_GAS AssetBalance_new_def coins_new_def no_snapshot_def
        ASSETS_example_def gas_tx_def spend_tx_def addCoin_def Coin_new_def ids_distinct_def
        all_assets_def hash_below_def watched_def findFunc_def splice_rest_def splice_removed_def)
  have look: "obj_get (assets (run unmapped ASSETS_example ?ops Balance_empty)) ''GAS'' =
     Some \<lparr>unspent = [\<lparr>index = 0, txid = ''t2'', coin_value = 400000000\<rparr>],
           spent = [\<lparr>index = 0, txid = ''t1'', coin_value = 1000000000\<rparr>],
           unconfirmed = []\<rparr>"
    by (simp add: run_def applyTx_def Balance_empty_def obj_get_def obj_set_def property_key_def
        addAsset_def Let_def toUpperCase_GAS AssetBalance_new_def coins_new_def no_snapshot_def
        ASSETS_example_def gas_tx_def spend_tx_def addCoin_def Coin_new_def
        findFunc_def splice_rest_def splice_removed_def)
  note th = admissible_calls_keep_ids_disjoint [OF adm look]
  show ?thesis
    using adm look th [THEN conjunct1] th [THEN conjunct2] by (intro conjI)
qed

subsection \<open>Export and construction\<close>

lemma Balance_new_empty:
  "Balance_new beyond toFixed8
     \<lparr>address_like = None, net_like = None, assetSymbols_like = None, assets_like = None,
      tokenSymbols_like = None, tokens_like = None\<rparr> = Balance_empty"
  by (simp add: Balance_new_def Balance_empty_def)

lemma update_absent: "k \<notin> fst ` set al \<Longrightarrow> AList.update k v al = al @ [(k, v)]"
  by (induction al) auto

lemma obj_get_map_keys:
  "obj_get (map (\<lambda>k. (k, h k)) ks) k = (if k \<in> set ks then Some (h k) else None)"
  unfolding obj_get_def by (induction ks) auto

lemma obj_get_the: "k \<in> set (map fst obj) \<Longrightarrow> obj_get obj k = Some (the (obj_get obj k))"
  using obj_get_defined_iff [of obj k] by auto

lemma fold_export:
  assumes "distinct ks" and "set ks \<inter> fst ` set acc = {}" and "set ks \<subseteq> set (map fst src)"
  shows "fold (\<lambda>key output. case obj_get src key of
                              None \<Rightarrow> output
                            | Some v \<Rightarrow> obj_set output key (f v)) ks acc =
         acc @ map (\<lambda>k. (k, f (the (obj_get src k)))) ks"
  using assms
proof (induction ks arbitrary: acc)
  case Nil
  then show ?case by simp
next
  case (Cons k ks)
  from Cons.prems(3) obtain v where v: "obj_get src k = Some v"
    using obj_get_defined_iff [of src k] by auto
  from Cons.prems(2) have app: "obj_set acc k (f v) = acc @ [(k, f v)]"
    by (simp add: obj_set_def update_absent)
  have d: "distinct ks" using Cons.prems(1) by simp
  have dj: "set ks \<inter> fst ` set (acc @ [(k, f v)]) = {}"
    using Cons.prems(1,2) by auto
  have sb: "set ks \<subseteq> set (map fst src)"
    using Cons.prems(3) by simp
  from Cons.IH [OF d dj sb] v app show ?case by simp
qed

lemma Object_keys_set: "set (Object_keys obj) = set (map fst obj)"
  by (auto simp: Object_keys_def)

lemma Object_keys_distinct: "distinct (map fst obj) \<Longrightarrow> distinct (Object_keys obj)"
  by (auto simp: Object_keys_def)

lemma Object_keys_idem:
  assumes "map fst obj' = Object_keys obj"
  shows "Object_keys obj' = Object_keys obj"
proof -
  let ?ks = "map fst obj"
  have 1: "filter is_array_index (Object_keys obj) = sort_key index_order (filter is_array_index ?ks)"
    by (simp add: Object_keys_def filter_sort)
  have 2: "filter (\<lambda>k. \<not> is_array_index k) (Object_keys obj) = filter (\<lambda>k. \<not> is_array_index k) ?ks"
    by (simp add: Object_keys_def filter_sort)
  have 3: "sort_key index_order (sort_key index_order (filter is_array_index ?ks)) =
           sort_key index_order (filter is_array_index ?ks)"
    by (rule sort_key_id_if_sorted) (rule sorted_sort_key)
  have "Object_keys obj' =
        sort_key index_order (filter is_array_index (Object_keys obj)) @
        filter (\<lambda>k. \<not> is_array_index k) (Object_keys obj)"
    by (simp only: Object_keys_def [of obj'] assms)
  also have "\<dots> = Object_keys obj"
    by (simp only: 1 2 3) (simp add: Object_keys_def)
  finally show ?thesis .
qed

lemma fold_addAsset:
  assumes "distinct ks" and "set ks \<inter> fst ` set (assets b0) = {}"
    and "\<forall>k \<in> set ks. toUpperCase beyond k = k" and "\<forall>k \<in> set ks. obj_get src k = Some (e k)"
  shows "fold (\<lambda>key b. case obj_get src key of
                         None \<Rightarrow> b
                       | Some assetBalance \<Rightarrow> addAsset beyond toFixed8 key assetBalance b) ks b0 =
         b0\<lparr>assetSymbols := assetSymbols b0 @ ks,
            assets := assets b0 @ map (\<lambda>k. (k, AssetBalance_new toFixed8 (e k))) ks\<rparr>"
  using assms
proof (induction ks arbitrary: b0)
  case Nil
  then show ?case by simp
next
  case (Cons k ks)
  let ?b1 = "addAsset beyond toFixed8 k (e k) b0"
  from Cons.prems(2,3) have b1: "?b1 = b0\<lparr>assetSymbols := assetSymbols b0 @ [k],
        assets := assets b0 @ [(k, AssetBalance_new toFixed8 (e k))]\<rparr>"
    by (simp add: addAsset_def Let_def obj_set_def update_absent)
  have d: "distinct ks" using Cons.prems(1) by simp
  have dj: "set ks \<inter> fst ` set (assets ?b1) = {}"
    using Cons.prems(1,2) by (auto simp: b1)
  have up: "\<forall>k \<in> set ks. toUpperCase beyond k = k" using Cons.prems(3) by simp
  have lk: "\<forall>k \<in> set ks. obj_get src k = Some (e k)" using Cons.prems(4) by simp
  from Cons.IH [OF d dj up lk] Cons.prems(4) show ?case
    by (simp add: b1)
qed

lemma fold_addToken:
  assumes "distinct ks" and "set ks \<inter> fst ` set (tokens b0) = {}"
    and "\<forall>k \<in> set ks. toUpperCase beyond k = k" and "\<forall>k \<in> set ks. obj_get src k = Some (e k)"
  shows "fold (\<lambda>key b. case obj_get src key of
                         None \<Rightarrow> b
                       | Some tokenBalance \<Rightarrow> addToken beyond toFixed8 key tokenBalance b) ks b0 =
         b0\<lparr>tokenSymbols := tokenSymbols b0 @ ks,
            tokens := tokens b0 @ map (\<lambda>k. (k, toFixed8 (e k))) ks\<rparr>"
  using assms
proof (induction ks arbitrary: b0)
  case Nil
  then show ?case by simp
next
  case (Cons k ks)
  let ?b1 = "addToken beyond toFixed8 k (e k) b0"
  from Cons.prems(2,3) have b1: "?b1 = b0\<lparr>tokenSymbols := tokenSymbols b0 @ [k],
        tokens := tokens b0 @ [(k, toFixed8 (e k))]\<rparr>"
    by (simp add: addToken_def Let_def obj_set_def update_absent)
  have d: "distinct ks" using Cons.prems(1) by simp
  have dj: "set ks \<inter> fst ` set (tokens ?b1) = {}"
    using Cons.prems(1,2) by (auto simp: b1)
  have up: "\<forall>k \<in> set ks. toUpperCase beyond k = k" using Cons.prems(3) by simp
  have lk: "\<forall>k \<in> set ks. obj_get src k = Some (e k)" using Cons.prems(4) by simp
  from Cons.IH [OF d dj up lk] Cons.prems(4) show ?case
    by (simp add: b1)
qed

lemma coins_roundtrip:
  "\<forall>c \<in> set cs. toFixed8 (toNumber (coin_value c)) = coin_value c \<Longrightarrow>
   coins_new toFixed8 (Some (map (Coin_export toNumber) cs)) = cs"
  by (simp add: coins_new_def Coin_new_def Coin_export_def map_idI)

lemma AssetBalance_roundtrip:
  assumes "\<forall>c \<in> set (unspent ab @ spent ab @ unconfirmed ab).
             toFixed8 (toNumber (coin_value c)) = coin_value c"
  shows "AssetBalance_new toFixed8 (AssetBalance_export toNumber ab) = ab"
  using assms by (simp add: AssetBalance_new_def AssetBalance_export_def coins_roundtrip)

lemma same_entries_keys:
  assumes "set ks = set (map fst obj)"
  shows "same_entries (map (\<lambda>k. (k, the (obj_get obj k))) ks) obj"
proof -
  have "obj_get (map (\<lambda>k. (k, the (obj_get obj k))) ks) k = obj_get obj k" if "k \<in> set ks" for k
    using that assms obj_get_the [of k obj] by (simp add: obj_get_map_keys)
  with assms show ?thesis
    by (simp add: same_entries_def list_all_iff comp_def)
qed

lemma exportAssets_closed:
  assumes "distinct (map fst as)"
  shows "exportAssets toNumber as =
         map (\<lambda>k. (k, AssetBalance_export toNumber (the (obj_get as k)))) (Object_keys as)"
proof -
  have "fold (\<lambda>key output. case obj_get as key of
                              None \<Rightarrow> output
                            | Some ab \<Rightarrow> obj_set output key (AssetBalance_export toNumber ab))
          (Object_keys as) [] =
        [] @ map (\<lambda>k. (k, AssetBalance_export toNumber (the (obj_get as k)))) (Object_keys as)"
    by (rule fold_export) (simp_all add: Object_keys_distinct assms Object_keys_set)
  then show ?thesis by (simp add: exportAssets_def)
qed

lemma exportTokens_closed:
  assumes "distinct (map fst ts)"
  shows "exportTokens toNumber ts =
         map (\<lambda>k. (k, toNumber (the (obj_get ts k)))) (Object_keys ts)"
proof -
  have "fold (\<lambda>symbol out. case obj_get ts symbol of
                            None \<Rightarrow> out
                          | Some t \<Rightarrow> obj_set out symbol (toNumber t))
          (Object_keys ts) [] =
        [] @ map (\<lambda>k. (k, toNumber (the (obj_get ts k)))) (Object_keys ts)"
    by (rule fold_export) (simp_all add: Object_keys_distinct assms Object_keys_set)
  then show ?thesis by (simp add: exportTokens_def)
qed

lemma Object_keys_map_keys: "Object_keys (map (\<lambda>k. (k, h k)) (Object_keys obj)) = Object_keys obj"
  by (rule Object_keys_idem) (simp add: comp_def)

lemma Balance_new_export:
  assumes "reproducible beyond toNumber toFixed8 b"
  shows "Balance_new beyond toFixed8 (export toNumber b) =
         \<lparr>address = address b, net = net b,
          assetSymbols = Object_keys (assets b),
          assets = map (\<lambda>k. (k, the (obj_get (assets b) k))) (Object_keys (assets b)),
          tokenSymbols = Object_keys (tokens b),
          tokens = map (\<lambda>k. (k, the (obj_get (tokens b) k))) (Object_keys (tokens b))\<rparr>"
proof -
  let ?A = "assets b" and ?T = "tokens b"
  let ?KA = "Object_keys (assets b)" and ?KT = "Object_keys (tokens b)"
  let ?ea = "\<lambda>k. AssetBalance_export toNumber (the (obj_get ?A k))"
  let ?et = "\<lambda>k. toNumber (the (obj_get ?T k))"
  let ?EA = "map (\<lambda>k. (k, ?ea k)) ?KA" and ?ET = "map (\<lambda>k. (k, ?et k)) ?KT"
  let ?b0 = "\<lparr>address = address b, net = net b, assetSymbols = [], assets = [],
             tokenSymbols = [], tokens = []\<rparr>"
  from assms have dA: "distinct (map fst ?A)" and dT: "distinct (map fst ?T)"
    and uA: "\<forall>k \<in> set (map fst ?A). toUpperCase beyond k = k"
    and uT: "\<forall>k \<in> set (map fst ?T). toUpperCase beyond k = k"
    and nt: "net b \<noteq> []"
    and sv: "\<forall>v \<in> set (amounts b). toFixed8 (toNumber v) = v"
    by (simp_all add: reproducible_def list_all_iff)
  have EA: "exportAssets toNumber ?A = ?EA" using dA by (rule exportAssets_closed)
  have ET: "exportTokens toNumber ?T = ?ET" using dT by (rule exportTokens_closed)
  have kEA: "Object_keys ?EA = ?KA" by (rule Object_keys_map_keys)
  have kET: "Object_keys ?ET = ?KT" by (rule Object_keys_map_keys)
  have ab_rt: "AssetBalance_new toFixed8 (?ea k) = the (obj_get ?A k)" if "k \<in> set ?KA" for k
  proof -
    from that have "k \<in> set (map fst ?A)" by (simp add: Object_keys_set)
    then obtain ab where ab: "obj_get ?A k = Some ab"
      using obj_get_defined_iff [of ?A k] by auto
    then have mem: "(k, ab) \<in> set ?A" by (rule obj_get_mem)
    have "\<forall>c \<in> set (unspent ab @ spent ab @ unconfirmed ab).
            toFixed8 (toNumber (coin_value c)) = coin_value c"
    proof
      fix c assume "c \<in> set (unspent ab @ spent ab @ unconfirmed ab)"
      with mem have "coin_value c \<in> set (amounts b)"
        by (force simp: amounts_def)
      with sv show "toFixed8 (toNumber (coin_value c)) = coin_value c" by blast
    qed
    from AssetBalance_roundtrip [of ab toFixed8 toNumber, OF this] ab show ?thesis by simp
  qed
  have t_rt: "toFixed8 (?et k) = the (obj_get ?T k)" if "k \<in> set ?KT" for k
  proof -
    from that have "k \<in> set (map fst ?T)" by (simp add: Object_keys_set)
    then obtain t where t: "obj_get ?T k = Some t"
      using obj_get_defined_iff [of ?T k] by auto
    then have "(k, t) \<in> set ?T" by (rule obj_get_mem)
    then have "t \<in> set (amounts b)" by (force simp: amounts_def)
    with sv t show ?thesis by simp
  qed
  have f1: "fold (\<lambda>key b. case obj_get ?EA key of
                         None \<Rightarrow> b
                       | Some assetBalance \<Rightarrow> addAsset beyond toFixed8 key assetBalance b) ?KA ?b0 =
         ?b0\<lparr>assetSymbols := assetSymbols ?b0 @ ?KA,
            assets := assets ?b0 @ map (\<lambda>k. (k, AssetBalance_new toFixed8 (?ea k))) ?KA\<rparr>"
    by (rule fold_addAsset)
      (use dA uA in \<open>simp_all add: Object_keys_distinct Object_keys_set obj_get_map_keys\<close>)
  have m1: "map (\<lambda>k. (k, AssetBalance_new toFixed8 (?ea k))) ?KA =
            map (\<lambda>k. (k, the (obj_get ?A k))) ?KA"
    using ab_rt by (intro map_cong) simp_all
  let ?b1 = "\<lparr>address = address b, net = net b, assetSymbols = ?KA,
             assets = map (\<lambda>k. (k, the (obj_get ?A k))) ?KA,
             tokenSymbols = [], tokens = []\<rparr>"
  from f1 m1 have f1': "fold (\<lambda>key b. case obj_get ?EA key of
                         None \<Rightarrow> b
                       | Some assetBalance \<Rightarrow> addAsset beyond toFixed8 key assetBalance b) ?KA ?b0 = ?b1"
    by simp
  have f2: "fold (\<lambda>key b. case obj_get ?ET key of
                         None \<Rightarrow> b
                       | Some tokenBalance \<Rightarrow> addToken beyond toFixed8 key tokenBalance b) ?KT ?b1 =
         ?b1\<lparr>tokenSymbols := tokenSymbols ?b1 @ ?KT,
            tokens := tokens ?b1 @ map (\<lambda>k. (k, toFixed8 (?et k))) ?KT\<rparr>"
    by (rule fold_addToken)
      (use dT uT in \<open>simp_all add: Object_keys_distinct Object_keys_set obj_get_map_keys\<close>)
  have m2: "map (\<lambda>k. (k, toFixed8 (?et k))) ?KT = map (\<lambda>k. (k, the (obj_get ?T k))) ?KT"
    using t_rt by (intro map_cong) simp_all
  have "Balance_new beyond toFixed8 (export toNumber b) =
        fold (\<lambda>key b. case obj_get ?ET key of
                         None \<Rightarrow> b
                       | Some tokenBalance \<Rightarrow> addToken beyond toFixed8 key tokenBalance b) ?KT
          (fold (\<lambda>key b. case obj_get ?EA key of
                         None \<Rightarrow> b
                       | Some assetBalance \<Rightarrow> addAsset beyond toFixed8 key assetBalance b) ?KA ?b0)"
    using nt by (simp add: Balance_new_def export_def Let_def EA ET kEA kET)
  also have "\<dots> = ?b1\<lparr>tokenSymbols := tokenSymbols ?b1 @ ?KT,
            tokens := tokens ?b1 @ map (\<lambda>k. (k, toFixed8 (?et k))) ?KT\<rparr>"
    by (simp only: f1' f2)
  finally show ?thesis by (simp add: m2)
qed

text \<open>
  C9. As claimed, for every Balance, the round trip fails on the symbol lists: the
  constructor does not read \<open>assetSymbols\<close> from the snapshot but lists the keys of
  \<open>assets\<close>, so a symbol added twice comes back once.
\<close>

theorem export_roundtrip_loses_duplicate_symbol:
  "assetSymbols gas_twice = [''GAS'', ''GAS''] \<and>
   assetSymbols (Balance_new unmapped (\<lambda>v. v) (export (\<lambda>v. v) gas_twice)) = [''GAS''] \<and>
   \<not> deep_equal (Balance_new unmapped (\<lambda>v. v) (export (\<lambda>v. v) gas_twice)) gas_twice"
proof -
  have g: "gas_twice = \<lparr>address = [], net = ''NoNet'', assetSymbols = [''GAS'', ''GAS''],
      assets = [(''GAS'', \<lparr>unspent = [], spent = [], unconfirmed = []\<rparr>)],
      tokenSymbols = [], tokens = []\<rparr>"
    by (simp add: gas_twice_def addAsset_def Let_def toUpperCase_GAS obj_set_def Balance_empty_def
        AssetBalance_new_def coins_new_def no_snapshot_def)
  have k: "Object_keys [(''GAS'', x)] = [''GAS'']" for x :: 'a
    by (simp add: Object_keys_def is_array_index_def array_index_def)
  have r: "Balance_new unmapped (\<lambda>v. v) (export (\<lambda>v::Fixed8. v) gas_twice) =
      \<lparr>address = [], net = ''NoNet'', assetSymbols = [''GAS''],
       assets = [(''GAS'', \<lparr>unspent = [], spent = [], unconfirmed = []\<rparr>)],
       tokenSymbols = [], tokens = []\<rparr>"
    by (simp add: g Balance_new_def export_def exportAssets_def exportTokens_def k Let_def
        obj_get_def obj_set_def addAsset_def toUpperCase_GAS AssetBalance_export_def
        AssetBalance_new_def coins_new_def Object_keys_def)
  show ?thesis
    by (simp add: r deep_equal_def) (simp add: g)
qed

text \<open>
  C9, amended. For a Balance whose symbol lists are the key lists of its asset and token
  objects, in the order of \<open>Object.keys\<close>, and whose amounts come back from the conversion
  to a number, constructing a Balance from the exported record gives a Balance deep-equal
  to the original.
\<close>

theorem export_roundtrip:
  assumes "reproducible beyond toNumber toFixed8 b"
  shows "deep_equal (Balance_new beyond toFixed8 (export toNumber b)) b"
proof -
  from assms have sA: "assetSymbols b = Object_keys (assets b)"
    and sT: "tokenSymbols b = Object_keys (tokens b)"
    by (simp_all add: reproducible_def)
  have eA: "same_entries (map (\<lambda>k. (k, the (obj_get (assets b) k))) (Object_keys (assets b))) (assets b)"
    by (rule same_entries_keys) (rule Object_keys_set)
  have eT: "same_entries (map (\<lambda>k. (k, the (obj_get (tokens b) k))) (Object_keys (tokens b))) (tokens b)"
    by (rule same_entries_keys) (rule Object_keys_set)
  show ?thesis
    by (simp add: Balance_new_export [OF assms] deep_equal_def sA sT eA eT)
qed

theorem export_roundtrip_witness:
  "reproducible unmapped (\<lambda>v. v) (\<lambda>v. v) neo_gas_rpx \<and>
   deep_equal (Balance_new unmapped (\<lambda>v. v) (export (\<lambda>v. v) neo_gas_rpx)) neo_gas_rpx"
proof -
  have r: "reproducible unmapped (\<lambda>v. v) (\<lambda>v. v) neo_gas_rpx"
    by code_simp
  from r export_roundtrip [OF r] show ?thesis by (intro conjI)
qed

subsection \<open>Well-formedness is an invariant\<close>

lemma well_formed_keys:
  "well_formed b \<longleftrightarrow> distinct (map fst (assets b)) \<and> set (assetSymbols b) \<subseteq> set (map fst (assets b))"
  unfolding well_formed_def obj_get_defined_iff by auto

lemma well_formed_same_keys:
  "well_formed b \<Longrightarrow> map fst (assets b') = map fst (assets b) \<Longrightarrow>
   assetSymbols b' = assetSymbols b \<Longrightarrow> well_formed b'"
  by (simp add: well_formed_keys)

lemma well_formed_empty: "well_formed Balance_empty"
  by (simp add: well_formed_def Balance_empty_def)

lemma well_formed_addAsset: "well_formed b \<Longrightarrow> well_formed (addAsset beyond toFixed8 symbol assetBalance b)"
  by (auto simp: well_formed_keys addAsset_def Let_def obj_set_def distinct_update update_keys)

lemma well_formed_addToken: "well_formed b \<Longrightarrow> well_formed (addToken beyond toFixed8 symbol tokenBalance b)"
  by (simp add: well_formed_def addToken_def Let_def)

lemma fold_addAsset_well_formed:
  "well_formed b \<Longrightarrow>
   well_formed (fold (\<lambda>key b. case obj_get src key of
                                  None \<Rightarrow> b
                                | Some assetBalance \<Rightarrow> addAsset beyond toFixed8 key assetBalance b) ks b)"
  by (induction ks arbitrary: b) (auto simp: well_formed_addAsset split: option.splits)

lemma fold_addToken_well_formed:
  "well_formed b \<Longrightarrow>
   well_formed (fold (\<lambda>key b. case obj_get src key of
                                  None \<Rightarrow> b
                                | Some tokenBalance \<Rightarrow> addToken beyond toFixed8 key tokenBalance b) ks b)"
  by (induction ks arbitrary: b) (auto simp: well_formed_addToken split: option.splits)

lemma Balance_new_well_formed: "well_formed (Balance_new beyond toFixed8 bal)"
proof -
  have "well_formed \<lparr>address = a, net = nt, assetSymbols = [], assets = [],
                      tokenSymbols = [], tokens = []\<rparr>" for a nt
    by (simp add: well_formed_def)
  then show ?thesis
    unfolding Balance_new_def Let_def
    by (auto intro!: fold_addAsset_well_formed fold_addToken_well_formed split: option.splits)
qed

lemma spendInput_shape:
  "map fst (assets (state_of (spendInput inp symbols b))) = map fst (assets b) \<and>
   assetSymbols (state_of (spendInput inp symbols b)) = assetSymbols b"
  by (induction symbols) (auto simp: obj_set_keys split: option.splits)

lemma spendCoins_shape:
  "map fst (assets (state_of (spendCoins inps symbols b))) = map fst (assets b) \<and>
   assetSymbols (state_of (spendCoins inps symbols b)) = assetSymbols b"
proof (induction inps arbitrary: b)
  case Nil
  then show ?case by simp
next
  case (Cons inp inps)
  show ?case
  proof (cases "spendInput inp symbols b")
    case (Returned b')
    with spendInput_shape [of inp symbols b] Cons.IH [of b'] show ?thesis by simp
  next
    case (Threw e b')
    with spendInput_shape [of inp symbols b] show ?thesis by simp
  qed
qed

lemma addNewCoins_well_formed:
  "well_formed b \<Longrightarrow> well_formed (state_of (addNewCoins beyond ASSETS h confirmed i outs b))"
proof (induction outs arbitrary: i b)
  case Nil
  then show ?case by simp
next
  case (Cons out outs)
  show ?case
  proof (cases "obj_get (assets b) (property_key (ASSETS (assetId out)))")
    case None
    with Cons.prems show ?thesis
      by (auto simp: well_formed_addAsset split: option.splits)
  next
    case (Some ab)
    let ?b1 = "b\<lparr>assets := obj_set (assets b) (property_key (ASSETS (assetId out)))
        (addCoin confirmed (Coin_new (\<lambda>v. v) \<lparr>index = i, txid = h, coin_value = out_value out\<rparr>) ab)\<rparr>"
    from Some have "map fst (assets ?b1) = map fst (assets b)"
      by (simp add: obj_set_keys)
    with Cons.prems have "well_formed ?b1"
      by (auto intro: well_formed_same_keys)
    from Cons.IH [OF this] Some show ?thesis by (simp add: Let_def)
  qed
qed

lemma applyTx_well_formed:
  assumes "well_formed b"
  shows "well_formed (state_of (applyTx beyond ASSETS tx confirmed b))"
proof -
  from assms spendCoins_shape [of "inputs tx" "assetSymbols b" b]
  have sp: "well_formed (state_of (spendCoins (inputs tx) (assetSymbols b) b))"
    by (auto intro: well_formed_same_keys)
  show ?thesis
  proof (cases "spendCoins (inputs tx) (assetSymbols b) b")
    case (Returned b')
    with sp addNewCoins_well_formed [of b'] show ?thesis by (simp add: applyTx_def)
  next
    case (Threw e b')
    with sp show ?thesis by (simp add: applyTx_def)
  qed
qed

lemma confirm_well_formed:
  assumes "well_formed b"
  shows "well_formed (state_of (confirm b))"
proof -
  from assms have "distinct (map fst (assets b))"
    and "\<forall>s \<in> set (assetSymbols b). obj_get (assets b) s \<noteq> None"
    by (simp_all add: well_formed_def)
  from confirm_loop_closed [OF this]
  have "state_of (confirm b) = b\<lparr>assets := promote_tracked (assetSymbols b) (assets b)\<rparr>"
    by (simp add: confirm_def)
  with assms show ?thesis
    by (auto intro: well_formed_same_keys simp: promote_tracked_keys)
qed

lemma fold_obj_set_keys:
  "length vs = length ks \<Longrightarrow> set ks \<subseteq> set (map fst obj) \<Longrightarrow>
   map fst (fold (\<lambda>(s, nb) as. obj_set as s nb) (zip ks vs) obj) = map fst obj"
proof (induction ks arbitrary: vs obj)
  case Nil
  then show ?case by simp
next
  case (Cons k ks)
  then obtain v vs' where vs: "vs = v # vs'" by (cases vs) auto
  from Cons.prems(2) have k: "obj_get obj k \<noteq> None"
    unfolding obj_get_defined_iff by simp
  then have keys: "map fst (obj_set obj k v) = map fst obj" by (rule obj_set_keys)
  from Cons.prems vs have "length vs' = length ks" and "set ks \<subseteq> set (map fst (obj_set obj k v))"
    by (simp_all add: keys)
  from Cons.IH [OF this] keys vs show ?case by simp
qed

lemma verifyAssets_well_formed:
  assumes "well_formed b"
  shows "well_formed (state_of (verifyAssets getTxOut url b))"
proof -
  define g where "g = (\<lambda>key. verifyAssetBalance getTxOut url (obj_get (assets b) key))"
  show ?thesis
  proof (cases "promise_all (map g (assetSymbols b))")
    case (Inl e)
    with assms show ?thesis by (simp add: verifyAssets_def g_def Let_def)
  next
    case (Inr nbs)
    from promise_all_map_Inr_iff [OF Inr] have len: "length nbs = length (assetSymbols b)" by simp
    from assms have "set (assetSymbols b) \<subseteq> set (map fst (assets b))"
      by (simp add: well_formed_keys)
    from fold_obj_set_keys [OF len this] assms Inr show ?thesis
      by (auto simp: verifyAssets_def g_def Let_def intro: well_formed_same_keys)
  qed
qed

lemma run_well_formed: "well_formed b \<Longrightarrow> well_formed (run beyond ASSETS ops b)"
  unfolding run_def
proof (induction ops arbitrary: b)
  case Nil
  then show ?case by simp
next
  case (Cons operation ops)
  have "well_formed (step beyond ASSETS operation b)"
    using Cons.prems
    by (cases operation)
      (simp_all add: well_formed_addAsset applyTx_well_formed confirm_well_formed
        verifyAssets_well_formed)
  from Cons.IH [OF this] show ?case by simp
qed

subsection \<open>When applyTx returns\<close>

lemma addNewCoins_returns:
  "\<forall>out \<in> set outs. obj_get (assets b) (property_key (ASSETS (assetId out))) \<noteq> None \<Longrightarrow>
   returned (addNewCoins beyond ASSETS h confirmed i outs b)"
proof (induction outs arbitrary: i b)
  case Nil
  then show ?case by simp
next
  case (Cons out outs)
  from Cons.prems obtain ab where
    ab: "obj_get (assets b) (property_key (ASSETS (assetId out))) = Some ab" by auto
  let ?b1 = "b\<lparr>assets := obj_set (assets b) (property_key (ASSETS (assetId out)))
        (addCoin confirmed (Coin_new (\<lambda>v. v) \<lparr>index = i, txid = h, coin_value = out_value out\<rparr>) ab)\<rparr>"
  from ab have "map fst (assets ?b1) = map fst (assets b)"
    by (simp add: obj_set_keys)
  with Cons.prems
  have "\<forall>out \<in> set outs. obj_get (assets ?b1) (property_key (ASSETS (assetId out))) \<noteq> None"
    unfolding obj_get_defined_iff by simp
  from Cons.IH [OF this] ab show ?case by (simp add: Let_def)
qed

lemma applyTx_returns:
  assumes "well_formed b"
    and "\<forall>out \<in> set (outputs tx). obj_get (assets b) (property_key (ASSETS (assetId out))) \<noteq> None"
  shows "returned (applyTx beyond ASSETS tx confirmed b)"
proof -
  from assms(1) have t: "\<forall>s \<in> set (assetSymbols b). obj_get (assets b) s \<noteq> None"
    by (simp add: well_formed_def)
  from spendCoins_fold [OF t]
  have sp: "spendCoins (inputs tx) (assetSymbols b) b =
      Returned (fold (spend_in (assetSymbols b)) (inputs tx) b)" .
  from spendCoins_shape [of "inputs tx" "assetSymbols b" b] sp
  have "map fst (assets (fold (spend_in (assetSymbols b)) (inputs tx) b)) = map fst (assets b)"
    by simp
  with assms(2)
  have "\<forall>out \<in> set (outputs tx).
      obj_get (assets (fold (spend_in (assetSymbols b)) (inputs tx) b))
        (property_key (ASSETS (assetId out))) \<noteq> None"
    unfolding obj_get_defined_iff by simp
  from addNewCoins_returns [OF this] sp show ?thesis by (simp add: applyTx_def)
qed

end
